theory Spec2Isabelle
  imports Main "HOL-Library.Sublist"
begin

text \<open>
  The ingestion pipeline of DailyArxivPaper: the per-record upsert of
  \<open>period_fetcher.insert_paper_data\<close> (the same function is in fetcher.py), the retry
  loop and the daily schedule of period_fetcher, the retrying fetch of
  test/dailyarxivfetcher, and the batched import of db_tools/import_arxiv. The
  definitions come first, each next to the source text it renders; the lemmas and the
  theorems about them follow.
\<close>

section \<open>The relational store\<close>

text \<open>
  The ingestion code talks to five PostgreSQL tables. A table is the list of its rows in
  insertion order, so that a duplicate row is representable and its absence is something
  to prove. Nullable columns are options. Timestamps are opaque integers.
  Columns that neither ingestion path names (the embedding vectors) are left out: an
  INSERT gives them their default and the ON CONFLICT DO UPDATE of the source does not
  list them, exactly as for \<open>summary_ai\<close> below.
\<close>

type_synonym timestamp = int

record paper_row =
  paper_id :: string
  title :: string
  abstract :: "string option"
  primary_category_code :: "string option"
  pdf_url :: "string option"
  arxiv_published_at :: "timestamp option"
  arxiv_updated_at :: "timestamp option"
  summary_ai :: "string option"
  detailed_review_ai :: "string option"
  journal_ref :: "string option"
  doi :: "string option"

text \<open>
  \<open>categories_meta\<close> rows are (category_code, description), \<open>authors\<close> rows are
  (author_id, name), \<open>paper_authors\<close> rows are (paper_id, author_id, author_order) and
  \<open>paper_categories\<close> rows are (paper_id, category_code).
\<close>

record store =
  categories_meta :: "(string \<times> string option) list"
  papers :: "paper_row list"
  authors :: "(nat \<times> string) list"
  paper_authors :: "(string \<times> nat \<times> nat) list"
  paper_categories :: "(string \<times> string) list"

definition empty_store :: store where
  "empty_store = \<lparr>categories_meta = [], papers = [], authors = [], paper_authors = [],
     paper_categories = []\<rparr>"

definition pa_key :: "string \<times> nat \<times> nat \<Rightarrow> string \<times> nat" where
  "pa_key row = (fst row, fst (snd row))"

text \<open>
  The unique constraints the ON CONFLICT clauses of the source name: papers (id),
  authors (name), categories_meta (category_code), paper_authors (paper_id, author_id),
  paper_categories (paper_id, category_code); author_id is the key of authors.
\<close>

definition unique_keys :: "store \<Rightarrow> bool" where
  "unique_keys s \<longleftrightarrow>
     distinct (map fst (categories_meta s)) \<and>
     distinct (map paper_id (papers s)) \<and>
     distinct (map snd (authors s)) \<and>
     distinct (map fst (authors s)) \<and>
     distinct (map pa_key (paper_authors s)) \<and>
     distinct (paper_categories s)"

text \<open>
  A connection with autocommit off: the committed store, and the store as the open
  transaction sees it. \<open>commit\<close> publishes the working store, \<open>rollback\<close> discards it.
\<close>

record conn =
  committed :: store
  working :: store

definition connect :: "store \<Rightarrow> conn" where
  "connect s = \<lparr>committed = s, working = s\<rparr>"

definition commit :: "conn \<Rightarrow> conn" where
  "commit c = c\<lparr>committed := working c\<rparr>"

definition rollback :: "conn \<Rightarrow> conn" where
  "rollback c = c\<lparr>working := committed c\<rparr>"

section \<open>Python string helpers\<close>

text \<open>\<open>s.split(c)\<close> for a one-character separator: never empty, keeps empty pieces.\<close>

fun py_split :: "char \<Rightarrow> string \<Rightarrow> string list" where
  "py_split c [] = [[]]"
| "py_split c (x # xs) =
     (if x = c then [] # py_split c xs
      else (case py_split c xs of [] \<Rightarrow> [[x]] | w # ws \<Rightarrow> (x # w) # ws))"

text \<open>\<open>s.replace("\n", " ")\<close>.\<close>

definition replace_newlines :: "string \<Rightarrow> string" where
  "replace_newlines s = map (\<lambda>ch. if ch = CHR 0x0A then CHR '' '' else ch) s"

text \<open>
  \<open>f"Category - {code.split('.')[-1] if '.' in code else code}"\<close>
\<close>

definition category_description :: "string \<Rightarrow> string" where
  "category_description code =
     ''Category - '' @ (if CHR ''.'' \<in> set code then last (py_split CHR ''.'' code) else code)"

section \<open>The SQL statements of the per-record path\<close>

text \<open>INSERT INTO categories_meta (category_code, description) ... ON CONFLICT (category_code) DO NOTHING\<close>

definition insert_category :: "string \<times> string option \<Rightarrow> store \<Rightarrow> store" where
  "insert_category row s =
     (if fst row \<in> set (map fst (categories_meta s)) then s
      else s\<lparr>categories_meta := categories_meta s @ [row]\<rparr>)"

definition insert_categories :: "(string \<times> string option) list \<Rightarrow> store \<Rightarrow> store" where
  "insert_categories rows s = fold insert_category rows s"

text \<open>
  INSERT INTO papers (id, title, abstract, primary_category_code, pdf_url,
  arxiv_published_at, arxiv_updated_at, journal_ref, doi) ... ON CONFLICT (id) DO UPDATE SET
  the eight columns after id to the EXCLUDED values. The columns not listed stay as they
  are on conflict and are NULL in a new row.
\<close>

definition overwrite_paper :: "paper_row \<Rightarrow> paper_row \<Rightarrow> paper_row" where
  "overwrite_paper new old =
     old\<lparr>title := title new, abstract := abstract new,
         primary_category_code := primary_category_code new, pdf_url := pdf_url new,
         arxiv_published_at := arxiv_published_at new,
         arxiv_updated_at := arxiv_updated_at new,
         journal_ref := journal_ref new, doi := doi new\<rparr>"

definition upsert_paper :: "paper_row \<Rightarrow> store \<Rightarrow> store" where
  "upsert_paper new s =
     (if paper_id new \<in> set (map paper_id (papers s))
      then s\<lparr>papers := map (\<lambda>old. if paper_id old = paper_id new
                                    then overwrite_paper new old else old) (papers s)\<rparr>
      else s\<lparr>papers := papers s @ [new]\<rparr>)"

text \<open>
  SELECT author_id FROM authors WHERE name = %s, read with fetchone().
\<close>

definition select_author_id :: "string \<Rightarrow> store \<Rightarrow> nat option" where
  "select_author_id name s =
     map_option fst (find (\<lambda>row. snd row = name) (authors s))"

text \<open>
  The surrogate key the store gives a new authors row. The table definition is not part
  of the source; all the code relies on is that the store assigns an author_id no row
  has yet, which one more than the largest id in use provides.
\<close>

definition next_author_id :: "store \<Rightarrow> nat" where
  "next_author_id s = Suc (fold max (map fst (authors s)) 0)"

text \<open>
  INSERT INTO authors (name) VALUES (%s) ON CONFLICT (name) DO UPDATE SET name =
  EXCLUDED.name RETURNING author_id, read with fetchone(): the id of the row with this
  name, inserted if there was none.
\<close>

definition upsert_author :: "string \<Rightarrow> store \<Rightarrow> store \<times> nat option" where
  "upsert_author name s =
     (case select_author_id name s of
        Some i \<Rightarrow> (s, Some i)
      | None \<Rightarrow> (s\<lparr>authors := authors s @ [(next_author_id s, name)]\<rparr>,
                 Some (next_author_id s)))"

text \<open>
  INSERT INTO paper_authors (paper_id, author_id, author_order) VALUES ... ON CONFLICT
  (paper_id, author_id) DO UPDATE SET author_order = EXCLUDED.author_order, row by row.
  (PostgreSQL refuses such a statement when two of its rows have the same key; a refusal
  is an error like any other and is left to the faults below.)
\<close>

definition upsert_paper_author ::
  "string \<times> nat \<times> nat \<Rightarrow> (string \<times> nat \<times> nat) list \<Rightarrow> (string \<times> nat \<times> nat) list" where
  "upsert_paper_author row rows =
     (if pa_key row \<in> set (map pa_key rows)
      then map (\<lambda>old. if pa_key old = pa_key row then row else old) rows
      else rows @ [row])"

definition upsert_paper_authors :: "(string \<times> nat \<times> nat) list \<Rightarrow> store \<Rightarrow> store" where
  "upsert_paper_authors rows s = s\<lparr>paper_authors := fold upsert_paper_author rows (paper_authors s)\<rparr>"

text \<open>
  INSERT INTO paper_categories (paper_id, category_code) VALUES ... ON CONFLICT
  (paper_id, category_code) DO NOTHING
\<close>

definition insert_paper_category ::
  "string \<times> string \<Rightarrow> (string \<times> string) list \<Rightarrow> (string \<times> string) list" where
  "insert_paper_category row rows = (if row \<in> set rows then rows else rows @ [row])"

definition insert_paper_categories :: "(string \<times> string) list \<Rightarrow> store \<Rightarrow> store" where
  "insert_paper_categories rows s =
     s\<lparr>paper_categories := fold insert_paper_category rows (paper_categories s)\<rparr>"

section \<open>Applying one record: \<open>insert_paper_data\<close>\<close>

text \<open>
  The fields of an \<open>arxiv.Result\<close> that the code reads (prefixed \<open>r_\<close>, as several share
  their name with a column); \<open>r_authors\<close> holds the \<open>name\<close> of each author object.
\<close>

record paper_result =
  r_entry_id :: string
  r_title :: string
  r_summary :: string
  r_primary_category :: "string option"
  r_pdf_url :: "string option"
  r_published :: timestamp
  r_updated :: timestamp
  r_journal_ref :: "string option"
  r_doi :: "string option"
  r_authors :: "string list"
  r_categories :: "string list"

text \<open>
  What the store and the driver may raise is not decided by the code: a value too long
  for its column, a constraint the statement does not handle, the cardinality check of
  ON CONFLICT DO UPDATE, a lost connection. A \<open>fault\<close> stands for all of it: nothing is
  raised, or \<open>conn.cursor()\<close> raises, or the k-th call on the cursor or connection
  (counted from 0 in the order the invocation makes them, the final \<open>conn.commit()\<close>
  included) raises.
\<close>

datatype fault = NoFault | CursorError | StatementError nat

datatype py_exn = DatabaseError

definition and_then :: "'e + 'a \<Rightarrow> ('a \<Rightarrow> 'e + 'b) \<Rightarrow> 'e + 'b" where
  "and_then m f = (case m of Inl e \<Rightarrow> Inl e | Inr x \<Rightarrow> f x)"

text \<open>A cursor call: the number of calls made so far, and the working store.\<close>

definition execute_returning ::
  "fault \<Rightarrow> (store \<Rightarrow> store \<times> 'a) \<Rightarrow> nat \<times> store \<Rightarrow> py_exn + ((nat \<times> store) \<times> 'a)" where
  "execute_returning flt stmt t =
     (if flt = StatementError (fst t) then Inl DatabaseError
      else Inr ((Suc (fst t), fst (stmt (snd t))), snd (stmt (snd t))))"

definition execute ::
  "fault \<Rightarrow> (store \<Rightarrow> store) \<Rightarrow> nat \<times> store \<Rightarrow> py_exn + (nat \<times> store)" where
  "execute flt stmt t =
     (if flt = StatementError (fst t) then Inl DatabaseError
      else Inr (Suc (fst t), stmt (snd t)))"

text \<open>\<open>paper_result.entry_id.split("/")[-1]\<close>\<close>

definition paper_id_of :: "paper_result \<Rightarrow> string" where
  "paper_id_of r = last (py_split CHR ''/'' (r_entry_id r))"

text \<open>The parameters of the INSERT INTO papers statement.\<close>

definition paper_values :: "paper_result \<Rightarrow> paper_row" where
  "paper_values r =
     \<lparr>paper_id = paper_id_of r, title = r_title r,
      abstract = Some (replace_newlines (r_summary r)),
      primary_category_code = r_primary_category r, pdf_url = r_pdf_url r,
      arxiv_published_at = Some (r_published r), arxiv_updated_at = Some (r_updated r),
      summary_ai = None, detailed_review_ai = None,
      journal_ref = r_journal_ref r, doi = r_doi r\<rparr>"

text \<open>Step 1: the primary category, when it is neither None nor empty.\<close>

definition ensure_primary_category ::
  "fault \<Rightarrow> paper_result \<Rightarrow> nat \<times> store \<Rightarrow> py_exn + (nat \<times> store)" where
  "ensure_primary_category flt r t =
     (case r_primary_category r of
        None \<Rightarrow> Inr t
      | Some code \<Rightarrow>
          if code = [] then Inr t
          else execute flt (insert_category (code, Some (category_description code))) t)"

text \<open>
  Step 3, the loop over \<open>enumerate(paper_result.authors)\<close>: \<open>i\<close> is the index,
  \<open>acc\<close> is \<open>author_ids_order\<close>. When fetchone() gives no row the source selects the id
  by name, and skips the author if that gives none either.
\<close>

fun link_authors ::
  "fault \<Rightarrow> string \<Rightarrow> nat \<Rightarrow> string list \<Rightarrow> (string \<times> nat \<times> nat) list \<Rightarrow> nat \<times> store
     \<Rightarrow> py_exn + ((nat \<times> store) \<times> (string \<times> nat \<times> nat) list)" where
  "link_authors flt pid i [] acc t = Inr (t, acc)"
| "link_authors flt pid i (name # rest) acc t =
     and_then (execute_returning flt (upsert_author name) t) (\<lambda>(t1, author_id_tuple).
       case author_id_tuple of
         Some aid \<Rightarrow> link_authors flt pid (Suc i) rest (acc @ [(pid, aid, i + 1)]) t1
       | None \<Rightarrow>
           and_then (execute_returning flt (\<lambda>s. (s, select_author_id name s)) t1)
             (\<lambda>(t2, author_id_tuple).
                case author_id_tuple of
                  Some aid \<Rightarrow> link_authors flt pid (Suc i) rest (acc @ [(pid, aid, i + 1)]) t2
                | None \<Rightarrow> link_authors flt pid (Suc i) rest acc t2))"

text \<open>Step 4: every non-empty category code, then the paper's links to them.\<close>

definition link_categories ::
  "fault \<Rightarrow> string \<Rightarrow> string list \<Rightarrow> nat \<times> store \<Rightarrow> py_exn + (nat \<times> store)" where
  "link_categories flt pid all_category_codes t =
     (if all_category_codes = [] then Inr t
      else
        let cat_meta_data =
              map (\<lambda>code. (code, Some (category_description code)))
                (filter (\<lambda>code. code \<noteq> []) all_category_codes);
            paper_cat_data =
              map (\<lambda>code. (pid, code)) (filter (\<lambda>code. code \<noteq> []) all_category_codes)
        in
          and_then (if cat_meta_data \<noteq> [] then execute flt (insert_categories cat_meta_data) t
                    else Inr t) (\<lambda>t1.
            if paper_cat_data \<noteq> [] then execute flt (insert_paper_categories paper_cat_data) t1
            else Inr t1))"

text \<open>The body of the try block up to, not including, \<open>conn.commit()\<close>.\<close>

definition apply_steps ::
  "fault \<Rightarrow> paper_result \<Rightarrow> nat \<times> store \<Rightarrow> py_exn + (nat \<times> store)" where
  "apply_steps flt r t =
     and_then (ensure_primary_category flt r t) (\<lambda>t1.
     and_then (execute flt (upsert_paper (paper_values r)) t1) (\<lambda>t2.
     and_then (link_authors flt (paper_id_of r) 0 (r_authors r) [] t2) (\<lambda>(t3, author_ids_order).
     and_then (if author_ids_order \<noteq> [] then execute flt (upsert_paper_authors author_ids_order) t3
               else Inr t3) (\<lambda>t4.
     link_categories flt (paper_id_of r) (r_categories r) t4))))"

text \<open>
  \<open>insert_paper_data(conn, paper_result)\<close>. \<open>conn.cursor()\<close> is outside the try block, so
  its exception reaches the caller (\<open>Inl\<close>). Inside, every exception is caught: the
  connection is rolled back and the result is False; otherwise the transaction is
  committed and the result is True.
\<close>

definition insert_paper_data :: "fault \<Rightarrow> conn \<Rightarrow> paper_result \<Rightarrow> py_exn + (conn \<times> bool)" where
  "insert_paper_data flt c r =
     (if flt = CursorError then Inl DatabaseError
      else
        case and_then (apply_steps flt r (0, working c))
               (\<lambda>t. execute flt (\<lambda>s. s) t) of
          Inl e \<Rightarrow> Inr (rollback c, False)
        | Inr t \<Rightarrow> Inr (commit (c\<lparr>working := snd t\<rparr>), True))"

section \<open>What a successful apply does to the store\<close>

text \<open>
  When nothing is raised, steps 1 to 4 are a composition of the statements above. These
  functions name that composition; \<open>apply_steps_Inr\<close> below proves that a successful
  \<open>apply_steps\<close> computes it.
\<close>

definition add_authors :: "string list \<Rightarrow> store \<Rightarrow> store" where
  "add_authors names s = fold (\<lambda>name s. fst (upsert_author name s)) names s"

fun author_rows :: "string \<Rightarrow> nat \<Rightarrow> string list \<Rightarrow> store \<Rightarrow> (string \<times> nat \<times> nat) list" where
  "author_rows pid i [] s = []"
| "author_rows pid i (name # rest) s =
     (pid, the (snd (upsert_author name s)), i + 1) #
       author_rows pid (Suc i) rest (fst (upsert_author name s))"

definition primary_category_applied :: "paper_result \<Rightarrow> store \<Rightarrow> store" where
  "primary_category_applied r s =
     (case r_primary_category r of
        None \<Rightarrow> s
      | Some code \<Rightarrow>
          if code = [] then s else insert_category (code, Some (category_description code)) s)"

definition categories_applied :: "string \<Rightarrow> string list \<Rightarrow> store \<Rightarrow> store" where
  "categories_applied pid codes s =
     insert_paper_categories (map (\<lambda>code. (pid, code)) (filter (\<lambda>code. code \<noteq> []) codes))
       (insert_categories
          (map (\<lambda>code. (code, Some (category_description code))) (filter (\<lambda>code. code \<noteq> []) codes)) s)"

definition record_applied :: "paper_result \<Rightarrow> store \<Rightarrow> store" where
  "record_applied r s =
     (let s2 = upsert_paper (paper_values r) (primary_category_applied r s)
      in categories_applied (paper_id_of r) (r_categories r)
           (upsert_paper_authors (author_rows (paper_id_of r) 0 (r_authors r) s2)
              (add_authors (r_authors r) s2)))"

text \<open>A store with nothing but the given authors rows.\<close>

definition authors_only :: "(nat \<times> string) list \<Rightarrow> store" where
  "authors_only rows = empty_store\<lparr>authors := rows\<rparr>"

text \<open>A row carries the nine values the INSERT INTO papers statement was given.\<close>

definition incoming_values :: "paper_row \<Rightarrow> paper_row \<Rightarrow> bool" where
  "incoming_values new row \<longleftrightarrow>
     paper_id row = paper_id new \<and> title row = title new \<and> abstract row = abstract new \<and>
     primary_category_code row = primary_category_code new \<and> pdf_url row = pdf_url new \<and>
     arxiv_published_at row = arxiv_published_at new \<and>
     arxiv_updated_at row = arxiv_updated_at new \<and>
     journal_ref row = journal_ref new \<and> doi row = doi new"

text \<open>
  A raw record of the catalogue given by what a scenario names: identifier, title, author
  names and category codes. \<open>other\<close> supplies every field the scenario leaves open.
\<close>

definition raw_record ::
  "string \<Rightarrow> string \<Rightarrow> string list \<Rightarrow> string list \<Rightarrow> paper_result \<Rightarrow> paper_result" where
  "raw_record ident ttl names codes other =
     other\<lparr>r_entry_id := ''http://arxiv.org/abs/'' @ ident, r_title := ttl,
           r_authors := names, r_categories := codes\<rparr>"

text \<open>A concrete record and a concrete store to run the code on.\<close>

definition sample_result :: paper_result where
  "sample_result =
     \<lparr>r_entry_id = ''http://arxiv.org/abs/2401.12345v1'', r_title = ''On Upserts'',
      r_summary = ''Two lines.'' @ [CHR 0x0A] @ ''Joined.'',
      r_primary_category = Some ''cs.DB'', r_pdf_url = Some ''http://arxiv.org/pdf/2401.12345v1'',
      r_published = 1705312800, r_updated = 1705399200,
      r_journal_ref = None, r_doi = None,
      r_authors = [''Ada'', ''Grace''], r_categories = [''cs.DB'', ''cs.IR'']\<rparr>"

section \<open>Fetching one category: \<open>fetch_papers_by_category_to_db\<close>\<close>

text \<open>
  The loop over \<open>results_list\<close>: \<open>i\<close> is the position of the record, \<open>n\<close> is
  \<open>inserted_count\<close>. An exception that leaves \<open>insert_paper_data\<close> ends the loop; the
  connection and the count are as they were when it was raised.
\<close>

fun process_results ::
  "(nat \<Rightarrow> fault) \<Rightarrow> nat \<Rightarrow> paper_result list \<Rightarrow> conn \<Rightarrow> nat \<Rightarrow> py_exn option \<times> conn \<times> nat" where
  "process_results dbf i [] c n = (None, c, n)"
| "process_results dbf i (r # rs) c n =
     (case insert_paper_data (dbf i) c r of
        Inl e \<Rightarrow> (Some e, c, n)
      | Inr (c', ok) \<Rightarrow> process_results dbf (Suc i) rs c' (if ok then n + 1 else n))"

text \<open>
  What one attempt on the catalogue gives: \<open>arxiv.HTTPError\<close>, another exception, or the
  materialised list of results.
\<close>

datatype api_outcome = HTTPError | UnexpectedError | Results "paper_result list"

text \<open>
  The world outside one run: what the catalogue answers to a query with a result cap at
  the attempt with that number, and what the store raises for the record at that
  position of that attempt.
\<close>

record env =
  api :: "string \<Rightarrow> nat option \<Rightarrow> nat \<Rightarrow> api_outcome"
  db_fault :: "string \<Rightarrow> nat \<Rightarrow> nat \<Rightarrow> fault"

datatype fetch_event = ApiCall string "nat option" | Sleep nat

definition date_query_start :: "string \<Rightarrow> string" where
  "date_query_start date_str = date_str @ ''000000''"

definition date_query_end :: "string \<Rightarrow> string" where
  "date_query_end date_str = date_str @ ''235959''"

definition query_of :: "string \<Rightarrow> string \<Rightarrow> string" where
  "query_of category date_str =
     ''submittedDate:['' @ date_query_start date_str @ '' TO '' @ date_query_end date_str @
     ''] AND cat:'' @ category"

text \<open>\<open>max_total if max_total else float('inf')\<close>: None is no cap.\<close>

definition max_results :: "nat option \<Rightarrow> nat option" where
  "max_results max_total =
     (case max_total of None \<Rightarrow> None | Some m \<Rightarrow> if m = 0 then None else Some m)"

definition max_api_call_failures :: nat where
  "max_api_call_failures = 3"

text \<open>
  The while loop. Each pass makes one call of the catalogue; since only the HTTPError
  handler lets the loop go on, and it adds one to \<open>failures\<close>, the pass with
  \<open>failures = k\<close> is attempt number k.
\<close>

function fetch_loop ::
  "env \<Rightarrow> string \<Rightarrow> nat option \<Rightarrow> nat \<Rightarrow> nat \<Rightarrow> conn \<Rightarrow> fetch_event list
     \<Rightarrow> nat \<times> conn \<times> fetch_event list" where
  "fetch_loop w query max_total failures inserted_count c tr =
     (if failures < max_api_call_failures then
        (case api w query (max_results max_total) failures of
           Results results_list \<Rightarrow>
             if length results_list = 0
             then (0, c, tr @ [ApiCall query (max_results max_total)])
             else (case process_results (db_fault w query failures) 0 results_list c
                          inserted_count of
                     (raised, c', n) \<Rightarrow> (n, c', tr @ [ApiCall query (max_results max_total)]))
         | HTTPError \<Rightarrow>
             if failures + 1 < max_api_call_failures
             then fetch_loop w query max_total (failures + 1) inserted_count c
                    (tr @ [ApiCall query (max_results max_total), Sleep 15])
             else (inserted_count, c, tr @ [ApiCall query (max_results max_total)])
         | UnexpectedError \<Rightarrow>
             (inserted_count, c, tr @ [ApiCall query (max_results max_total)]))
      else (inserted_count, c, tr))"
  by pat_completeness auto
termination
  by (relation "measure (\<lambda>(w, query, max_total, failures, rest). max_api_call_failures - failures)")
    auto

declare fetch_loop.simps [simp del]

definition fetch_papers_by_category_to_db ::
  "env \<Rightarrow> string \<Rightarrow> string \<Rightarrow> conn \<Rightarrow> nat \<Rightarrow> nat option \<Rightarrow> nat \<times> conn \<times> fetch_event list" where
  "fetch_papers_by_category_to_db w category date_str db_conn batch_size max_total =
     fetch_loop w (query_of category date_str) max_total 0 0 db_conn []"

section \<open>The daily run: \<open>fetch_daily_papers_to_db\<close>\<close>

definition HIGH_VOLUME_CATEGORIES :: "string list" where
  "HIGH_VOLUME_CATEGORIES = [''cs.AI'', ''cs.CV'', ''cs.LG'', ''cs.CL'']"

definition MEDIUM_VOLUME_CATEGORIES :: "string list" where
  "MEDIUM_VOLUME_CATEGORIES =
     [''cs.CR'', ''cs.NE'', ''cs.RO'', ''cs.IR'', ''cs.SE'', ''cs.SI'', ''cs.HC'', ''cs.DB'']"

definition LOW_VOLUME_CATEGORIES :: "string list" where
  "LOW_VOLUME_CATEGORIES =
     [''cs.AR'', ''cs.CC'', ''cs.CE'', ''cs.CG'', ''cs.CY'', ''cs.DC'', ''cs.DL'', ''cs.DM'',
      ''cs.DS'', ''cs.ET'', ''cs.FL'', ''cs.GL'', ''cs.GR'', ''cs.GT'', ''cs.IT'', ''cs.LO'',
      ''cs.MA'', ''cs.MM'', ''cs.MS'', ''cs.NA'', ''cs.NI'', ''cs.OH'', ''cs.OS'',
      ''cs.PF'', ''cs.PL'', ''cs.SC'', ''cs.SD'', ''cs.SY'']"

text \<open>(categories, vol_type, batch_size, max_total, sleep_time)\<close>

definition category_processing_order ::
  "(string list \<times> string \<times> nat \<times> nat \<times> nat) list" where
  "category_processing_order =
     [(HIGH_VOLUME_CATEGORIES, ''HIGH'', 50, 500, 5),
      (MEDIUM_VOLUME_CATEGORIES, ''MEDIUM'', 100, 300, 3),
      (LOW_VOLUME_CATEGORIES, ''LOW'', 100, 150, 2)]"

text \<open>\<open>[categories[i:i+n] for i in range(0, len(categories), n)]\<close> for a positive n.\<close>

function slices :: "nat \<Rightarrow> 'a list \<Rightarrow> 'a list list" where
  "slices n xs = (if n = 0 \<or> xs = [] then [] else take n xs # slices n (drop n xs))"
  by pat_completeness auto
termination
  by (relation "measure (\<lambda>(n, xs). length xs)") auto

declare slices.simps [simp del]

definition groups_of :: "string \<Rightarrow> string list \<Rightarrow> string list list" where
  "groups_of vol_type categories =
     (if vol_type = ''MEDIUM'' then slices 2 categories
      else if vol_type = ''LOW'' then slices 5 categories
      else map (\<lambda>cat. [cat]) categories)"

text \<open>
  What the scheduler does, in order: a call of \<open>fetch_papers_by_category_to_db\<close> (the
  category, batch_size and max_total it was given, what happened inside, the count it
  returned), or the \<open>time.sleep(sleep_t)\<close> after a group.
\<close>

datatype run_event = Fetched string nat nat "fetch_event list" nat | Pause nat

type_synonym run_state = "nat \<times> conn \<times> run_event list"

fun fetch_group :: "env \<Rightarrow> string \<Rightarrow> nat \<Rightarrow> nat \<Rightarrow> string list \<Rightarrow> run_state \<Rightarrow> run_state" where
  "fetch_group w date_str batch_s max_t [] st = st"
| "fetch_group w date_str batch_s max_t (category # rest) (total_inserted, c, tr) =
     (case fetch_papers_by_category_to_db w category date_str c batch_s (Some max_t) of
        (count, c', events) \<Rightarrow>
          fetch_group w date_str batch_s max_t rest
            (total_inserted + count, c', tr @ [Fetched category batch_s max_t events count]))"

fun fetch_groups ::
  "env \<Rightarrow> string \<Rightarrow> nat \<Rightarrow> nat \<Rightarrow> nat \<Rightarrow> string list list \<Rightarrow> run_state \<Rightarrow> run_state" where
  "fetch_groups w date_str batch_s max_t sleep_t [] st = st"
| "fetch_groups w date_str batch_s max_t sleep_t (category_group # rest) st =
     (case fetch_group w date_str batch_s max_t category_group st of
        (total_inserted, c, tr) \<Rightarrow>
          fetch_groups w date_str batch_s max_t sleep_t rest
            (total_inserted, c, if length category_group > 0 then tr @ [Pause sleep_t] else tr))"

fun fetch_tiers ::
  "env \<Rightarrow> string \<Rightarrow> (string list \<times> string \<times> nat \<times> nat \<times> nat) list \<Rightarrow> run_state \<Rightarrow> run_state" where
  "fetch_tiers w date_str [] st = st"
| "fetch_tiers w date_str ((categories, vol_type, batch_s, max_t, sleep_t) # rest) st =
     fetch_tiers w date_str rest
       (fetch_groups w date_str batch_s max_t sleep_t (groups_of vol_type categories) st)"

text \<open>
  \<open>fetch_daily_papers_to_db\<close>, given the date as \<open>strftime('%Y%m%d')\<close> printed it and the
  store \<open>get_db_connection()\<close> connects to. The statistics printed at the end only read.
\<close>

definition fetch_daily_papers_to_db :: "env \<Rightarrow> string \<Rightarrow> store \<Rightarrow> run_state" where
  "fetch_daily_papers_to_db w date_str s =
     fetch_tiers w date_str category_processing_order (0, connect s, [])"

text \<open>The schedule a run followed: its events without what happened inside each fetch.\<close>

datatype step = Fetch string nat | Wait nat

fun outline :: "run_event \<Rightarrow> step" where
  "outline (Fetched category batch_s max_t events count) = Fetch category max_t"
| "outline (Pause sleep_t) = Wait sleep_t"

text \<open>
  The schedule the configuration table prescribes: for each tier in the order of the
  table, for each group, a fetch of each of its categories under the tier's cap, then the
  tier's pause if the group is not empty.
\<close>

definition group_schedule :: "nat \<Rightarrow> nat \<Rightarrow> string list \<Rightarrow> step list" where
  "group_schedule max_t sleep_t category_group =
     map (\<lambda>category. Fetch category max_t) category_group @
     (if length category_group > 0 then [Wait sleep_t] else [])"

definition tier_schedule :: "string list \<times> string \<times> nat \<times> nat \<times> nat \<Rightarrow> step list" where
  "tier_schedule tier =
     (case tier of (categories, vol_type, batch_s, max_t, sleep_t) \<Rightarrow>
        concat (map (group_schedule max_t sleep_t) (groups_of vol_type categories)))"

fun fetched_category :: "run_event \<Rightarrow> string list" where
  "fetched_category (Fetched category batch_s max_t events count) = [category]"
| "fetched_category (Pause sleep_t) = []"

text \<open>
  Three concrete worlds: a catalogue that answers every attempt with HTTPError; one that
  answers the first attempt with HTTPError and the next with another exception; one that
  returns two records, with a store whose cursor cannot be opened for the second.
\<close>

definition catalogue_down :: env where
  "catalogue_down = \<lparr>api = (\<lambda>query cap attempt. HTTPError), db_fault = (\<lambda>query attempt i. NoFault)\<rparr>"

definition catalogue_broken :: env where
  "catalogue_broken =
     \<lparr>api = (\<lambda>query cap attempt. if attempt = 0 then HTTPError else UnexpectedError),
      db_fault = (\<lambda>query attempt i. NoFault)\<rparr>"

definition connection_lost :: env where
  "connection_lost =
     \<lparr>api = (\<lambda>query cap attempt.
               Results [sample_result,
                        raw_record ''2401.00001'' ''A'' [''X'', ''Y''] [''cs.AI''] sample_result]),
      db_fault = (\<lambda>query attempt i. if i = 0 then NoFault else CursorError)\<rparr>"

section \<open>The JSON fetch variant: \<open>fetch_papers_by_category\<close>\<close>

text \<open>
  The dictionary the variant builds for one result. \<open>published\<close> and \<open>updated\<close> are
  \<open>strftime("%Y-%m-%d")\<close> of the timestamps; the formatting is a parameter.
\<close>

record fetched_paper =
  f_id :: string
  f_title :: string
  f_authors :: "string list"
  f_abstract :: string
  f_categories :: "string list"
  f_primary_category :: "string option"
  f_pdf_url :: "string option"
  f_published :: string
  f_updated :: string
  f_summary :: "string option"
  f_detailed_review :: "string option"

definition to_paper :: "(timestamp \<Rightarrow> string) \<Rightarrow> paper_result \<Rightarrow> fetched_paper" where
  "to_paper strftime paper_result =
     \<lparr>f_id = last (py_split CHR ''/'' (r_entry_id paper_result)),
      f_title = r_title paper_result,
      f_authors = r_authors paper_result,
      f_abstract = replace_newlines (r_summary paper_result),
      f_categories = r_categories paper_result,
      f_primary_category = r_primary_category paper_result,
      f_pdf_url = r_pdf_url paper_result,
      f_published = strftime (r_published paper_result),
      f_updated = strftime (r_updated paper_result),
      f_summary = None, f_detailed_review = None\<rparr>"

text \<open>\<open>f"({date_query}) AND (cat:{category})"\<close>\<close>

definition json_query_of :: "string \<Rightarrow> string \<Rightarrow> string" where
  "json_query_of category date_str =
     ''(submittedDate:['' @ date_str @ ''000000 TO '' @ date_str @ ''235959]) AND (cat:'' @
     category @ '')''"

text \<open>\<open>max_total and i+1 >= max_total\<close>, for the value \<open>n\<close> of \<open>i+1\<close>.\<close>

definition cap_reached :: "nat option \<Rightarrow> nat \<Rightarrow> bool" where
  "cap_reached max_total n =
     (case max_total of None \<Rightarrow> False | Some m \<Rightarrow> m \<noteq> 0 \<and> n \<ge> m)"

text \<open>
  The body of the try block. The generator of the client yields \<open>results\<close> and then
  either stops or raises (\<open>raises\<close>). \<open>i\<close> is the index of \<open>enumerate\<close>, \<open>batch\<close> is the
  variable of that name, \<open>fetched\<close> is the list \<open>papers\<close>, \<open>sleeps\<close> collects the arguments of
  \<open>time.sleep\<close>. The result says whether the exception left the block.
\<close>

fun collect_batches ::
  "(timestamp \<Rightarrow> string) \<Rightarrow> nat \<Rightarrow> nat option \<Rightarrow> nat \<Rightarrow> paper_result list \<Rightarrow> bool \<Rightarrow>
   paper_result list \<Rightarrow> fetched_paper list \<Rightarrow> nat list \<Rightarrow> fetched_paper list \<times> bool \<times> nat list" where
  "collect_batches strftime batch_size max_total i [] raises batch fetched sleeps =
     (if raises then (fetched, True, sleeps)
      else if batch \<noteq> [] then (fetched @ map (to_paper strftime) batch, False, sleeps)
      else (fetched, False, sleeps))"
| "collect_batches strftime batch_size max_total i (result # rest) raises batch fetched sleeps =
     (if length (batch @ [result]) \<ge> batch_size \<or> cap_reached max_total (i + 1)
      then
        if cap_reached max_total (i + 1)
        then (fetched @ map (to_paper strftime) (batch @ [result]), False, sleeps @ [3])
        else collect_batches strftime batch_size max_total (i + 1) rest raises []
               (fetched @ map (to_paper strftime) (batch @ [result])) (sleeps @ [3])
      else collect_batches strftime batch_size max_total (i + 1) rest raises (batch @ [result])
             fetched sleeps)"

definition max_failures :: nat where
  "max_failures = 3"

text \<open>\<open>max(50, max_total // 2)\<close> if \<open>max_total\<close> else 200\<close>

definition max_retry :: "nat option \<Rightarrow> nat" where
  "max_retry max_total =
     (case max_total of None \<Rightarrow> 200 | Some m \<Rightarrow> if m = 0 then 200 else max 50 (m div 2))"

text \<open>
  \<open>fetch_papers_by_category\<close>. The client answers the call with number \<open>call\<close> for a
  query and a result cap with what its generator yields and whether it then raises. The
  function calls itself in its exception handler, and nothing in the source bounds how
  often: the first argument is the number of nested calls the interpreter is allowed, and
  the result is None when they do not suffice. \<open>failures\<close> is a local variable, zero at
  the start of every call.
\<close>

fun fetch_papers_by_category ::
  "nat \<Rightarrow> (timestamp \<Rightarrow> string) \<Rightarrow> (string \<Rightarrow> nat option \<Rightarrow> nat \<Rightarrow> paper_result list \<times> bool) \<Rightarrow>
   string \<Rightarrow> string \<Rightarrow> nat \<Rightarrow> nat \<Rightarrow> nat option \<Rightarrow> (fetched_paper list \<times> nat list) option" where
  "fetch_papers_by_category 0 strftime client category date_str call batch_size max_total = None"
| "fetch_papers_by_category (Suc depth) strftime client category date_str call batch_size
       max_total =
     (case collect_batches strftime batch_size max_total 0
             (fst (client (json_query_of category date_str) max_total call))
             (snd (client (json_query_of category date_str) max_total call)) [] [] [] of
        (fetched, raised, sleeps) \<Rightarrow>
          if \<not> raised then Some (fetched, sleeps)
          else
            let failures = 0 + 1 in
            if failures < max_failures then
              (case fetch_papers_by_category depth strftime client category date_str (Suc call)
                      batch_size (Some (max_retry max_total)) of
                 None \<Rightarrow> None
               | Some (retry_fetched, retry_sleeps) \<Rightarrow>
                   Some (fetched @ retry_fetched, sleeps @ [10] @ retry_sleeps))
            else Some (fetched, sleeps))"

text \<open>A client whose every call raises at once, and one whose first \<open>n\<close> calls do.\<close>

definition always_raising :: "string \<Rightarrow> nat option \<Rightarrow> nat \<Rightarrow> paper_result list \<times> bool" where
  "always_raising query cap call = ([], True)"

definition raising_first ::
  "nat \<Rightarrow> string \<Rightarrow> nat option \<Rightarrow> nat \<Rightarrow> paper_result list \<times> bool" where
  "raising_first n query cap call = ([], call < n)"

section \<open>The batched import: \<open>main\<close> of import_arxiv\<close>

text \<open>
  One element of the JSON list. A field is None when the key is absent or null; the two
  list fields are empty when the key is absent (\<open>paper.get(key, [])\<close>).
\<close>

record json_paper =
  j_id :: "string option"
  j_title :: "string option"
  j_abstract :: "string option"
  j_primary_category_code :: "string option"
  j_pdf_url :: "string option"
  j_arxiv_published_at :: "string option"
  j_arxiv_updated_at :: "string option"
  j_summary_ai :: "string option"
  j_detailed_review_ai :: "string option"
  j_journal_ref :: "string option"
  j_doi :: "string option"
  j_authors :: "string list"
  j_categories :: "string list"

text \<open>\<open>key not in paper or not paper[key]\<close>\<close>

definition missing :: "string option \<Rightarrow> bool" where
  "missing v = (case v of None \<Rightarrow> True | Some str \<Rightarrow> str = [])"

definition text_of :: "string option \<Rightarrow> string" where
  "text_of v = (case v of None \<Rightarrow> [] | Some str \<Rightarrow> str)"

text \<open>
  \<open>parse_datetime\<close>: None for an absent or empty string; what the formats make of any
  other string is the parameter \<open>parse\<close>. It never raises.
\<close>

definition parse_datetime :: "(string \<Rightarrow> timestamp option) \<Rightarrow> string option \<Rightarrow> timestamp option" where
  "parse_datetime parse dt_str = (if missing dt_str then None else parse (text_of dt_str))"

subsection \<open>The SQL statements of the batched path\<close>

text \<open>
  INSERT INTO papers (eleven columns) ... ON CONFLICT (id) DO NOTHING RETURNING id, read
  with fetchone().
\<close>

definition insert_paper_ignore :: "paper_row \<Rightarrow> store \<Rightarrow> store \<times> string option" where
  "insert_paper_ignore new s =
     (if paper_id new \<in> set (map paper_id (papers s)) then (s, None)
      else (s\<lparr>papers := papers s @ [new]\<rparr>, Some (paper_id new)))"

text \<open>INSERT INTO authors (name) VALUES ... ON CONFLICT (name) DO NOTHING\<close>

definition insert_author_ignore :: "string \<Rightarrow> store \<Rightarrow> store" where
  "insert_author_ignore name s =
     (if name \<in> set (map snd (authors s)) then s
      else s\<lparr>authors := authors s @ [(next_author_id s, name)]\<rparr>)"

definition insert_authors_ignore :: "string list \<Rightarrow> store \<Rightarrow> store" where
  "insert_authors_ignore names s = fold insert_author_ignore names s"

text \<open>
  INSERT INTO paper_authors (paper_id, author_id, author_order) VALUES ... ON CONFLICT DO
  NOTHING
\<close>

definition insert_paper_author_ignore ::
  "string \<times> nat \<times> nat \<Rightarrow> (string \<times> nat \<times> nat) list \<Rightarrow> (string \<times> nat \<times> nat) list" where
  "insert_paper_author_ignore row rows =
     (if pa_key row \<in> set (map pa_key rows) then rows else rows @ [row])"

definition insert_paper_authors_ignore :: "(string \<times> nat \<times> nat) list \<Rightarrow> store \<Rightarrow> store" where
  "insert_paper_authors_ignore rows s =
     s\<lparr>paper_authors := fold insert_paper_author_ignore rows (paper_authors s)\<rparr>"

text \<open>
  INSERT INTO categories_meta (category_code) VALUES ... ON CONFLICT DO NOTHING: the
  description of a new row is NULL.
\<close>

definition insert_category_codes :: "string list \<Rightarrow> store \<Rightarrow> store" where
  "insert_category_codes codes s = insert_categories (map (\<lambda>code. (code, None)) codes) s"

subsection \<open>The state of the import\<close>

datatype log_line =
  SkippingMissingId nat | NoTitle string | ErrorProcessing string | ErrorDuringImport

text \<open>
  The connection, the number of calls made on cursor and connection so far, the two
  caches, the four lists of rows waiting for the next flush, and what was printed.
  \<open>author_name_to_id\<close> is a dictionary in insertion order.
\<close>

record import_state =
  db :: conn
  calls :: nat
  author_name_to_id :: "(string \<times> nat option) list"
  category_code_set :: "string set"
  new_categories :: "string list"
  new_authors :: "string list"
  new_paper_authors :: "(string \<times> nat \<times> nat) list"
  new_paper_categories :: "(string \<times> string) list"
  printed :: "log_line list"

definition dict_set :: "'k \<Rightarrow> 'v \<Rightarrow> ('k \<times> 'v) list \<Rightarrow> ('k \<times> 'v) list" where
  "dict_set k v d =
     (if k \<in> set (map fst d) then map (\<lambda>entry. if fst entry = k then (k, v) else entry) d
      else d @ [(k, v)])"

text \<open>
  A call on the cursor or the connection. \<open>raises k\<close> says that the call with number k
  raises psycopg2.Error; the result is then \<open>Inl\<close> of the state at that moment.
\<close>

definition im_execute ::
  "(nat \<Rightarrow> bool) \<Rightarrow> (store \<Rightarrow> store) \<Rightarrow> import_state \<Rightarrow> import_state + import_state" where
  "im_execute raises stmt st =
     (if raises (calls st) then Inl (st\<lparr>calls := Suc (calls st)\<rparr>)
      else Inr (st\<lparr>calls := Suc (calls st),
                   db := (db st)\<lparr>working := stmt (working (db st))\<rparr>\<rparr>))"

definition im_commit :: "(nat \<Rightarrow> bool) \<Rightarrow> import_state \<Rightarrow> import_state + import_state" where
  "im_commit raises st =
     (if raises (calls st) then Inl (st\<lparr>calls := Suc (calls st)\<rparr>)
      else Inr (st\<lparr>calls := Suc (calls st), db := commit (db st)\<rparr>))"

subsection \<open>The loop body\<close>

text \<open>The loop over \<open>paper.get("categories", [])\<close> that fills \<open>new_categories\<close>.\<close>

definition note_category :: "string \<Rightarrow> import_state \<Rightarrow> import_state" where
  "note_category cat st =
     (if cat \<noteq> [] \<and> cat \<notin> category_code_set st
      then st\<lparr>new_categories := new_categories st @ [cat],
              category_code_set := insert cat (category_code_set st)\<rparr>
      else st)"

text \<open>The loop over \<open>paper.get("authors", [])\<close> that fills \<open>new_authors\<close>.\<close>

definition note_author :: "string \<Rightarrow> import_state \<Rightarrow> import_state" where
  "note_author author st =
     (if author = [] then st
      else if author \<notin> set (map fst (author_name_to_id st))
      then st\<lparr>new_authors := new_authors st @ [author],
              author_name_to_id := dict_set author None (author_name_to_id st)\<rparr>
      else st)"

text \<open>The parameters of the INSERT INTO papers statement, given id and title.\<close>

definition json_values ::
  "(string \<Rightarrow> timestamp option) \<Rightarrow> string \<Rightarrow> string \<Rightarrow> json_paper \<Rightarrow> paper_row" where
  "json_values parse ident ttl paper =
     \<lparr>paper_id = ident, title = ttl, abstract = j_abstract paper,
      primary_category_code = j_primary_category_code paper, pdf_url = j_pdf_url paper,
      arxiv_published_at = parse_datetime parse (j_arxiv_published_at paper),
      arxiv_updated_at = parse_datetime parse (j_arxiv_updated_at paper),
      summary_ai = j_summary_ai paper, detailed_review_ai = j_detailed_review_ai paper,
      journal_ref = j_journal_ref paper, doi = j_doi paper\<rparr>"

text \<open>
  \<open>for author in author_name_to_id\<close>: every name whose id is still None is looked up,
  one SELECT each; \<open>names\<close> are the keys still to visit.
\<close>

fun refresh_author_ids ::
  "(nat \<Rightarrow> bool) \<Rightarrow> string list \<Rightarrow> import_state \<Rightarrow> import_state + import_state" where
  "refresh_author_ids raises [] st = Inr st"
| "refresh_author_ids raises (author # names) st =
     (if map_of (author_name_to_id st) author = Some None then
        and_then (im_execute raises (\<lambda>s. s) st) (\<lambda>st1.
          case select_author_id author (working (db st1)) of
            Some aid \<Rightarrow>
              refresh_author_ids raises names
                (st1\<lparr>author_name_to_id := dict_set author (Some aid) (author_name_to_id st1)\<rparr>)
          | None \<Rightarrow> refresh_author_ids raises names st1)
      else refresh_author_ids raises names st)"

text \<open>
  The rows \<open>(paper["id"], author_id, order)\<close> the two loops over papers and
  \<open>enumerate(paper.get("authors", []), 1)\<close> append to \<open>new_paper_authors\<close>.
\<close>

definition author_links ::
  "(string \<times> nat option) list \<Rightarrow> string \<Rightarrow> string list \<Rightarrow> (string \<times> nat \<times> nat) list" where
  "author_links cache ident names =
     concat (map (\<lambda>(order, author).
                    if author = [] \<or> author \<notin> set (map fst cache) then []
                    else (case map_of cache author of
                            Some (Some aid) \<Rightarrow> [(ident, aid, order)]
                          | _ \<Rightarrow> []))
                 (zip [1 ..< Suc (length names)] names))"

definition paper_author_rows ::
  "(string \<times> nat option) list \<Rightarrow> json_paper list \<Rightarrow> (string \<times> nat \<times> nat) list" where
  "paper_author_rows cache ps =
     concat (map (\<lambda>paper. if missing (j_id paper) then []
                           else author_links cache (text_of (j_id paper)) (j_authors paper)) ps)"

text \<open>\<open>xs[a:b]\<close> for \<open>0 \<le> a\<close>\<close>

definition py_slice :: "nat \<Rightarrow> nat \<Rightarrow> 'a list \<Rightarrow> 'a list" where
  "py_slice a b xs = take (b - a) (drop a xs)"

text \<open>
  The flush after every hundredth paper. A list is emptied only after its statement has
  run; \<open>i - 99\<close> on naturals is \<open>max(0, i-99)\<close>.
\<close>

definition flush_batch ::
  "(nat \<Rightarrow> bool) \<Rightarrow> json_paper list \<Rightarrow> nat \<Rightarrow> import_state \<Rightarrow> import_state + import_state" where
  "flush_batch raises papers_json i st =
     and_then
       (if new_categories st \<noteq> []
        then and_then (im_execute raises (insert_category_codes (new_categories st)) st)
               (\<lambda>st1. Inr (st1\<lparr>new_categories := []\<rparr>))
        else Inr st) (\<lambda>st1.
     and_then
       (if new_authors st1 \<noteq> []
        then and_then (im_execute raises (insert_authors_ignore (new_authors st1)) st1)
               (\<lambda>st2. refresh_author_ids raises (map fst (author_name_to_id st2))
                        (st2\<lparr>new_authors := []\<rparr>))
        else Inr st1) (\<lambda>st2.
     and_then
       (if new_paper_authors st2 @
             paper_author_rows (author_name_to_id st2) (py_slice (i - 99) (i + 1) papers_json)
           \<noteq> []
        then and_then
               (im_execute raises
                  (insert_paper_authors_ignore
                     (new_paper_authors st2 @
                      paper_author_rows (author_name_to_id st2)
                        (py_slice (i - 99) (i + 1) papers_json)))
                  (st2\<lparr>new_paper_authors := new_paper_authors st2 @
                          paper_author_rows (author_name_to_id st2)
                            (py_slice (i - 99) (i + 1) papers_json)\<rparr>))
               (\<lambda>st3. Inr (st3\<lparr>new_paper_authors := []\<rparr>))
        else Inr st2) (\<lambda>st3.
     and_then
       (if new_paper_categories st3 \<noteq> []
        then and_then
               (im_execute raises (insert_paper_categories (new_paper_categories st3)) st3)
               (\<lambda>st4. Inr (st4\<lparr>new_paper_categories := []\<rparr>))
        else Inr st3) (\<lambda>st4.
     im_commit raises st4))))"

text \<open>
  The try block of one pass, for a paper with id \<open>ident\<close> and title \<open>ttl\<close>: the
  paper is inserted, its category links are queued and, after every hundredth paper, the
  queues are flushed and committed.
\<close>

definition try_paper ::
  "(nat \<Rightarrow> bool) \<Rightarrow> (string \<Rightarrow> timestamp option) \<Rightarrow> json_paper list \<Rightarrow> nat \<Rightarrow> json_paper \<Rightarrow>
   string \<Rightarrow> string \<Rightarrow> import_state \<Rightarrow> import_state + import_state" where
  "try_paper raises parse papers_json i paper ident ttl st =
     and_then
       (im_execute raises (\<lambda>s. fst (insert_paper_ignore (json_values parse ident ttl paper) s))
          st) (\<lambda>st3.
       let st4 = st3\<lparr>new_paper_categories := new_paper_categories st3 @
                       map (\<lambda>cat. (ident, cat))
                         (filter (\<lambda>cat. cat \<noteq> []) (j_categories paper))\<rparr>
       in if (i + 1) mod 100 = 0 then flush_batch raises papers_json i st4
          else Inr st4)"

text \<open>
  One pass of the loop over \<open>enumerate(papers)\<close>. A paper without id is skipped with a
  warning. Otherwise the title is settled, the caches are filled and the try block runs;
  a psycopg2.Error in it rolls the connection back and the loop goes on.
\<close>

definition import_paper ::
  "(nat \<Rightarrow> bool) \<Rightarrow> (string \<Rightarrow> timestamp option) \<Rightarrow> json_paper list \<Rightarrow> nat \<Rightarrow> json_paper \<Rightarrow>
   import_state \<Rightarrow> import_state" where
  "import_paper raises parse papers_json i paper st =
     (if missing (j_id paper) then st\<lparr>printed := printed st @ [SkippingMissingId i]\<rparr>
      else
        let ident = text_of (j_id paper);
            ttl = (if missing (j_title paper) then [] else text_of (j_title paper));
            st0 = (if missing (j_title paper) then st\<lparr>printed := printed st @ [NoTitle ident]\<rparr>
                   else st);
            st1 = fold note_category (j_categories paper) st0;
            st2 = fold note_author (j_authors paper) st1
        in
          case try_paper raises parse papers_json i paper ident ttl st2 of
            Inr st' \<Rightarrow> st'
          | Inl st' \<Rightarrow> st'\<lparr>db := rollback (db st'),
                           printed := printed st' @ [ErrorProcessing ident]\<rparr>)"

fun import_loop ::
  "(nat \<Rightarrow> bool) \<Rightarrow> (string \<Rightarrow> timestamp option) \<Rightarrow> json_paper list \<Rightarrow> nat \<Rightarrow> json_paper list \<Rightarrow>
   import_state \<Rightarrow> import_state" where
  "import_loop raises parse papers_json i [] st = st"
| "import_loop raises parse papers_json i (paper # rest) st =
     import_loop raises parse papers_json (Suc i) rest
       (import_paper raises parse papers_json i paper st)"

text \<open>
  After the loop: what is left in the queues is inserted, the author links are built
  once more for all papers, and the transaction is committed.
\<close>

definition final_flush ::
  "(nat \<Rightarrow> bool) \<Rightarrow> json_paper list \<Rightarrow> import_state \<Rightarrow> import_state + import_state" where
  "final_flush raises papers_json st =
     and_then
       (if new_categories st \<noteq> []
        then im_execute raises (insert_category_codes (new_categories st)) st
        else Inr st) (\<lambda>st1.
     and_then
       (if new_authors st1 \<noteq> []
        then and_then (im_execute raises (insert_authors_ignore (new_authors st1)) st1)
               (\<lambda>st2. refresh_author_ids raises (map fst (author_name_to_id st2)) st2)
        else Inr st1) (\<lambda>st2.
     and_then
       (if new_paper_authors st2 @ paper_author_rows (author_name_to_id st2) papers_json \<noteq> []
        then im_execute raises
               (insert_paper_authors_ignore
                  (new_paper_authors st2 @ paper_author_rows (author_name_to_id st2) papers_json))
               (st2\<lparr>new_paper_authors := new_paper_authors st2 @
                       paper_author_rows (author_name_to_id st2) papers_json\<rparr>)
        else Inr st2) (\<lambda>st3.
     and_then
       (if new_paper_categories st3 \<noteq> []
        then im_execute raises (insert_paper_categories (new_paper_categories st3)) st3
        else Inr st3) (\<lambda>st4.
     im_commit raises st4))))"

text \<open>The two SELECTs that fill the caches before the loop.\<close>

definition preload :: "(nat \<Rightarrow> bool) \<Rightarrow> import_state \<Rightarrow> import_state + import_state" where
  "preload raises st =
     and_then (im_execute raises (\<lambda>s. s) st) (\<lambda>st1.
     and_then
       (im_execute raises (\<lambda>s. s)
          (st1\<lparr>author_name_to_id :=
                  fold (\<lambda>row. dict_set (snd row) (Some (fst row))) (authors (working (db st1)))
                    (author_name_to_id st1)\<rparr>)) (\<lambda>st2.
     Inr (st2\<lparr>category_code_set :=
                 category_code_set st2 \<union> set (map fst (categories_meta (working (db st2))))\<rparr>)))"

text \<open>
  \<open>main\<close>, from the connection on: the papers of the JSON file are imported into the
  store \<open>s\<close>, starting with autocommit off, empty caches and empty queues. Any
  psycopg2.Error outside the loop body rolls back and ends the import.
\<close>

definition initial_state :: "store \<Rightarrow> import_state" where
  "initial_state s =
     \<lparr>db = connect s, calls = 0, author_name_to_id = [], category_code_set = {},
      new_categories = [], new_authors = [], new_paper_authors = [],
      new_paper_categories = [], printed = []\<rparr>"

definition main ::
  "(nat \<Rightarrow> bool) \<Rightarrow> (string \<Rightarrow> timestamp option) \<Rightarrow> json_paper list \<Rightarrow> store \<Rightarrow> import_state" where
  "main raises parse papers_json s =
     (case and_then (preload raises (initial_state s)) (\<lambda>st.
             final_flush raises papers_json (import_loop raises parse papers_json 0 papers_json st))
      of
        Inr st \<Rightarrow> st
      | Inl st \<Rightarrow> st\<lparr>db := rollback (db st), printed := printed st @ [ErrorDuringImport]\<rparr>)"

text \<open>What the store holds when the connection has been closed.\<close>

definition imported ::
  "(nat \<Rightarrow> bool) \<Rightarrow> (string \<Rightarrow> timestamp option) \<Rightarrow> json_paper list \<Rightarrow> store \<Rightarrow> store" where
  "imported raises parse papers_json s = committed (db (main raises parse papers_json s))"

subsection \<open>What every statement of the batched path respects\<close>

text \<open>
  Every table of the second store begins with the rows of the first, in the same order
  and unchanged.
\<close>

definition grows :: "store \<Rightarrow> store \<Rightarrow> bool" where
  "grows s s' \<longleftrightarrow>
     prefix (categories_meta s) (categories_meta s') \<and> prefix (papers s) (papers s') \<and>
     prefix (authors s) (authors s') \<and> prefix (paper_authors s) (paper_authors s') \<and>
     prefix (paper_categories s) (paper_categories s')"

text \<open>A statement that only adds rows and keeps the unique constraints.\<close>

definition ignoring :: "(store \<Rightarrow> store) \<Rightarrow> bool" where
  "ignoring stmt \<longleftrightarrow> (\<forall>s. grows s (stmt s) \<and> (unique_keys s \<longrightarrow> unique_keys (stmt s)))"

text \<open>
  A connection on which the committed store and the working store both extend the store
  \<open>s0\<close> and satisfy the unique constraints.
\<close>

definition sound :: "store \<Rightarrow> conn \<Rightarrow> bool" where
  "sound s0 c \<longleftrightarrow>
     grows s0 (committed c) \<and> grows s0 (working c) \<and>
     unique_keys (committed c) \<and> unique_keys (working c)"

definition on_both :: "('a \<Rightarrow> bool) \<Rightarrow> 'a + 'a \<Rightarrow> bool" where
  "on_both P r = (case r of Inl st \<Rightarrow> P st | Inr st \<Rightarrow> P st)"

subsection \<open>A concrete store and a concrete JSON paper\<close>

text \<open>
  A store that holds paper 2401.00001 with title A and authors X, Y in that order, and
  the same paper as a JSON file would bring it again, revised and with the authors
  reordered.
\<close>

definition stored_row :: paper_row where
  "stored_row =
     \<lparr>paper_id = ''2401.00001'', title = ''A'', abstract = Some ''An abstract.'',
      primary_category_code = Some ''cs.AI'', pdf_url = None,
      arxiv_published_at = Some 1704067200, arxiv_updated_at = Some 1704067200,
      summary_ai = None, detailed_review_ai = None, journal_ref = None, doi = None\<rparr>"

definition stored :: store where
  "stored =
     \<lparr>categories_meta = [(''cs.AI'', Some ''Category - AI'')],
      papers = [stored_row],
      authors = [(1, ''X''), (2, ''Y'')],
      paper_authors = [(''2401.00001'', 1, 1), (''2401.00001'', 2, 2)],
      paper_categories = [(''2401.00001'', ''cs.AI'')]\<rparr>"

definition revised_json :: json_paper where
  "revised_json =
     \<lparr>j_id = Some ''2401.00001'', j_title = Some ''A revised'',
      j_abstract = Some ''A new abstract.'', j_primary_category_code = Some ''cs.AI'',
      j_pdf_url = None, j_arxiv_published_at = None, j_arxiv_updated_at = None,
      j_summary_ai = None, j_detailed_review_ai = None, j_journal_ref = None, j_doi = None,
      j_authors = [''Y'', ''X''], j_categories = [''cs.AI'']\<rparr>"

definition never :: "nat \<Rightarrow> bool" where
  "never k = False"

definition unparsed :: "string \<Rightarrow> timestamp option" where
  "unparsed str = None"

text \<open>The same re-ingestion as a record of the catalogue, for the per-record path.\<close>

definition revised_result :: paper_result where
  "revised_result =
     raw_record ''2401.00001'' ''A revised'' [''Y'', ''X''] [''cs.AI''] sample_result"

subsection \<open>Statements that leave the papers table alone\<close>

definition keeps_papers :: "(store \<Rightarrow> store) \<Rightarrow> bool" where
  "keeps_papers stmt \<longleftrightarrow> (\<forall>s. papers (stmt s) = papers s)"

text \<open>A step that does not raise and ends in a state with the given property.\<close>

definition returns :: "('a \<Rightarrow> bool) \<Rightarrow> 'a + 'a \<Rightarrow> bool" where
  "returns Q r = (case r of Inl st \<Rightarrow> False | Inr st \<Rightarrow> Q st)"

subsection \<open>Two defective JSON papers\<close>

definition without_id :: json_paper where
  "without_id = revised_json\<lparr>j_id := None\<rparr>"

definition without_title :: json_paper where
  "without_title = revised_json\<lparr>j_id := Some ''2401.00007'', j_title := None\<rparr>"

text \<open>What holds of the state in which a step raised, if it did.\<close>

definition on_raise :: "('a \<Rightarrow> bool) \<Rightarrow> 'a + 'a \<Rightarrow> bool" where
  "on_raise P r = (case r of Inl st \<Rightarrow> P st | Inr st \<Rightarrow> True)"

text \<open>A store whose first call raises.\<close>

definition first_call_raises :: "nat \<Rightarrow> bool" where
  "first_call_raises k = (k = 0)"

section \<open>Inversion of the transaction script\<close>

lemma execute_Inr: "execute flt f t = Inr t' \<Longrightarrow> t' = (Suc (fst t), f (snd t))"
  by (auto simp: execute_def split: if_splits)

lemma execute_returning_Inr:
  "execute_returning flt f t = Inr (t', x) \<Longrightarrow>
     t' = (Suc (fst t), fst (f (snd t))) \<and> x = snd (f (snd t))"
  by (auto simp: execute_returning_def split: if_splits)

lemma and_then_Inr: "and_then m f = Inr y \<Longrightarrow> \<exists>x. m = Inr x \<and> f x = Inr y"
  by (cases m) (auto simp: and_then_def)

lemma upsert_author_Some: "\<exists>i. snd (upsert_author name s) = Some i"
  by (cases "select_author_id name s") (auto simp: upsert_author_def)

lemma link_authors_Inr:
  "link_authors flt pid i names acc t = Inr (t', acc') \<Longrightarrow>
     snd t' = add_authors names (snd t) \<and> acc' = acc @ author_rows pid i names (snd t)"
proof (induction names arbitrary: i acc t)
  case Nil
  then show ?case by (simp add: add_authors_def)
next
  case (Cons name rest)
  define K where "K = (\<lambda>(t1, author_id_tuple).
       case author_id_tuple of
         Some aid \<Rightarrow> link_authors flt pid (Suc i) rest (acc @ [(pid, aid, i + 1)]) t1
       | None \<Rightarrow>
           and_then (execute_returning flt (\<lambda>s. (s, select_author_id name s)) t1)
             (\<lambda>(t2, author_id_tuple).
                case author_id_tuple of
                  Some aid \<Rightarrow> link_authors flt pid (Suc i) rest (acc @ [(pid, aid, i + 1)]) t2
                | None \<Rightarrow> link_authors flt pid (Suc i) rest acc t2))"
  have "and_then (execute_returning flt (upsert_author name) t) K = Inr (t', acc')"
    using Cons.prems unfolding K_def by simp
  then obtain p where e: "execute_returning flt (upsert_author name) t = Inr p"
    and k: "K p = Inr (t', acc')"
    by (blast dest: and_then_Inr)
  obtain t1 x where p: "p = (t1, x)" by (cases p)
  from execute_returning_Inr [OF e [unfolded p]]
  have t1: "snd t1 = fst (upsert_author name (snd t))" and x: "x = snd (upsert_author name (snd t))"
    by simp_all
  from upsert_author_Some [of name "snd t"] x obtain aid where aid: "x = Some aid" by auto
  from k have "link_authors flt pid (Suc i) rest (acc @ [(pid, aid, i + 1)]) t1 = Inr (t', acc')"
    by (simp add: K_def p aid)
  from Cons.IH [OF this] t1 x [unfolded aid, symmetric] show ?case
    by (simp add: add_authors_def)
qed

lemma ensure_primary_category_Inr:
  "ensure_primary_category flt r t = Inr t' \<Longrightarrow> snd t' = primary_category_applied r (snd t)"
  by (auto simp: ensure_primary_category_def primary_category_applied_def
      split: option.splits if_splits dest: execute_Inr)

lemma insert_categories_Nil: "insert_categories [] s = s"
  by (simp add: insert_categories_def)

lemma insert_paper_categories_Nil: "insert_paper_categories [] s = s"
  by (simp add: insert_paper_categories_def)

lemma upsert_paper_authors_Nil: "upsert_paper_authors [] s = s"
  by (simp add: upsert_paper_authors_def)

lemma link_categories_Inr:
  "link_categories flt pid codes t = Inr t' \<Longrightarrow> snd t' = categories_applied pid codes (snd t)"
  unfolding link_categories_def categories_applied_def Let_def
  by (auto split: if_splits dest!: and_then_Inr execute_Inr
      simp: insert_categories_Nil insert_paper_categories_Nil)

lemma apply_steps_Inr:
  assumes "apply_steps flt r t = Inr t'"
  shows "snd t' = record_applied r (snd t)"
proof -
  from assms obtain t1 t2 t3 rows t4 where
    1: "ensure_primary_category flt r t = Inr t1" and
    2: "execute flt (upsert_paper (paper_values r)) t1 = Inr t2" and
    3: "link_authors flt (paper_id_of r) 0 (r_authors r) [] t2 = Inr (t3, rows)" and
    4: "(if rows \<noteq> [] then execute flt (upsert_paper_authors rows) t3 else Inr t3) = Inr t4" and
    5: "link_categories flt (paper_id_of r) (r_categories r) t4 = Inr t'"
    unfolding apply_steps_def by (auto dest!: and_then_Inr)
  have s2: "snd t2 = upsert_paper (paper_values r) (primary_category_applied r (snd t))"
    using ensure_primary_category_Inr [OF 1] execute_Inr [OF 2] by simp
  have s3: "snd t3 = add_authors (r_authors r) (snd t2)"
    and rows: "rows = author_rows (paper_id_of r) 0 (r_authors r) (snd t2)"
    using link_authors_Inr [OF 3] by simp_all
  have s4: "snd t4 = upsert_paper_authors rows (snd t3)"
    using 4 by (auto split: if_splits dest: execute_Inr simp: upsert_paper_authors_Nil)
  show ?thesis
    using link_categories_Inr [OF 5] s2 s3 rows s4 by (simp add: record_applied_def Let_def)
qed

lemma insert_paper_data_True:
  assumes "insert_paper_data flt c r = Inr (c', True)"
  shows "c' = connect (record_applied r (working c))"
proof -
  from assms obtain t where
    t: "and_then (apply_steps flt r (0, working c)) (\<lambda>t. execute flt (\<lambda>s. s) t) = Inr t"
    and c': "c' = commit (c\<lparr>working := snd t\<rparr>)"
    by (auto simp: insert_paper_data_def split: if_splits sum.splits)
  from t obtain t0 where a: "apply_steps flt r (0, working c) = Inr t0"
    and e: "execute flt (\<lambda>s. s) t0 = Inr t"
    by (auto dest!: and_then_Inr)
  have "snd t = record_applied r (working c)"
    using apply_steps_Inr [OF a] execute_Inr [OF e] by simp
  with c' show ?thesis by (simp add: commit_def connect_def)
qed

lemma insert_paper_data_False:
  "insert_paper_data flt c r = Inr (c', False) \<Longrightarrow> c' = rollback c"
  by (auto simp: insert_paper_data_def split: if_splits sum.splits)

subsection \<open>Each statement keeps the unique constraints\<close>

lemma insert_category_tables [simp]:
  "papers (insert_category row s) = papers s"
  "authors (insert_category row s) = authors s"
  "paper_authors (insert_category row s) = paper_authors s"
  "paper_categories (insert_category row s) = paper_categories s"
  by (simp_all add: insert_category_def)

lemma insert_categories_tables [simp]:
  "papers (insert_categories rows s) = papers s"
  "authors (insert_categories rows s) = authors s"
  "paper_authors (insert_categories rows s) = paper_authors s"
  "paper_categories (insert_categories rows s) = paper_categories s"
  unfolding insert_categories_def by (induction rows arbitrary: s; simp)+

lemma upsert_paper_tables [simp]:
  "categories_meta (upsert_paper new s) = categories_meta s"
  "authors (upsert_paper new s) = authors s"
  "paper_authors (upsert_paper new s) = paper_authors s"
  "paper_categories (upsert_paper new s) = paper_categories s"
  by (simp_all add: upsert_paper_def)

lemma upsert_author_tables [simp]:
  "categories_meta (fst (upsert_author name s)) = categories_meta s"
  "papers (fst (upsert_author name s)) = papers s"
  "paper_authors (fst (upsert_author name s)) = paper_authors s"
  "paper_categories (fst (upsert_author name s)) = paper_categories s"
  by (simp_all add: upsert_author_def split: option.splits)

lemma add_authors_tables [simp]:
  "categories_meta (add_authors names s) = categories_meta s"
  "papers (add_authors names s) = papers s"
  "paper_authors (add_authors names s) = paper_authors s"
  "paper_categories (add_authors names s) = paper_categories s"
  unfolding add_authors_def by (induction names arbitrary: s; simp)+

lemma upsert_paper_authors_tables [simp]:
  "categories_meta (upsert_paper_authors rows s) = categories_meta s"
  "papers (upsert_paper_authors rows s) = papers s"
  "authors (upsert_paper_authors rows s) = authors s"
  "paper_categories (upsert_paper_authors rows s) = paper_categories s"
  by (simp_all add: upsert_paper_authors_def)

lemma insert_paper_categories_tables [simp]:
  "categories_meta (insert_paper_categories rows s) = categories_meta s"
  "papers (insert_paper_categories rows s) = papers s"
  "authors (insert_paper_categories rows s) = authors s"
  "paper_authors (insert_paper_categories rows s) = paper_authors s"
  by (simp_all add: insert_paper_categories_def)

lemma primary_category_applied_tables [simp]:
  "papers (primary_category_applied r s) = papers s"
  "authors (primary_category_applied r s) = authors s"
  "paper_authors (primary_category_applied r s) = paper_authors s"
  "paper_categories (primary_category_applied r s) = paper_categories s"
  by (simp_all add: primary_category_applied_def split: option.splits)

lemma categories_applied_tables [simp]:
  "papers (categories_applied pid codes s) = papers s"
  "authors (categories_applied pid codes s) = authors s"
  "paper_authors (categories_applied pid codes s) = paper_authors s"
  by (simp_all add: categories_applied_def)

lemma distinct_insert_category:
  "distinct (map fst (categories_meta s)) \<Longrightarrow>
   distinct (map fst (categories_meta (insert_category row s)))"
  by (simp add: insert_category_def)

lemma distinct_insert_categories:
  "distinct (map fst (categories_meta s)) \<Longrightarrow>
   distinct (map fst (categories_meta (insert_categories rows s)))"
  unfolding insert_categories_def
  by (induction rows arbitrary: s) (simp_all add: distinct_insert_category)

lemma paper_id_overwrite_paper [simp]: "paper_id (overwrite_paper new old) = paper_id old"
  by (simp add: overwrite_paper_def)

lemma paper_ids_upsert_paper:
  "map paper_id (papers (upsert_paper new s)) =
     (if paper_id new \<in> set (map paper_id (papers s)) then map paper_id (papers s)
      else map paper_id (papers s) @ [paper_id new])"
  by (simp add: upsert_paper_def o_def cong: map_cong)

lemma distinct_upsert_paper:
  "distinct (map paper_id (papers s)) \<Longrightarrow> distinct (map paper_id (papers (upsert_paper new s)))"
  by (simp add: paper_ids_upsert_paper)

lemma fold_max_ge: "(m::nat) \<le> fold max xs m"
proof (induction xs arbitrary: m)
  case Nil
  show ?case by simp
next
  case (Cons x xs)
  have "m \<le> max x m" by simp
  also have "\<dots> \<le> fold max xs (max x m)" by (rule Cons.IH)
  finally show ?case by simp
qed

lemma fold_max_upper: "i \<in> set xs \<Longrightarrow> i \<le> fold max xs (m::nat)"
proof (induction xs arbitrary: m)
  case Nil
  then show ?case by simp
next
  case (Cons x xs)
  show ?case
  proof (cases "i = x")
    case True
    have "i \<le> max x m" using True by simp
    also have "\<dots> \<le> fold max xs (max x m)" by (rule fold_max_ge)
    finally show ?thesis by simp
  next
    case False
    with Cons.prems have "i \<in> set xs" by simp
    from Cons.IH [OF this] show ?thesis by simp
  qed
qed

lemma next_author_id_fresh: "next_author_id s \<notin> set (map fst (authors s))"
proof
  assume "next_author_id s \<in> set (map fst (authors s))"
  from fold_max_upper [OF this, of 0] show False by (simp add: next_author_id_def)
qed

lemma find_None_image: "find (\<lambda>row. f row = a) xs = None \<longleftrightarrow> a \<notin> f ` set xs"
  by (induction xs) auto

lemma find_Some_member: "find P xs = Some x \<Longrightarrow> x \<in> set xs \<and> P x"
  by (induction xs) (auto split: if_splits)

lemma select_author_id_None:
  "select_author_id name s = None \<longleftrightarrow> name \<notin> set (map snd (authors s))"
  by (simp add: select_author_id_def find_None_image)

lemma select_author_id_Some:
  "select_author_id name s = Some i \<Longrightarrow> (i, name) \<in> set (authors s)"
  by (auto simp: select_author_id_def dest!: find_Some_member)

lemma distinct_upsert_author:
  assumes "distinct (map snd (authors s))" and "distinct (map fst (authors s))"
  shows "distinct (map snd (authors (fst (upsert_author name s))))"
    and "distinct (map fst (authors (fst (upsert_author name s))))"
  using assms next_author_id_fresh [of s]
  by (auto simp: upsert_author_def select_author_id_None split: option.splits)

lemma distinct_add_authors:
  "distinct (map snd (authors s)) \<Longrightarrow> distinct (map fst (authors s)) \<Longrightarrow>
   distinct (map snd (authors (add_authors names s))) \<and>
   distinct (map fst (authors (add_authors names s)))"
  unfolding add_authors_def
  by (induction names arbitrary: s) (simp_all add: distinct_upsert_author)

lemma pa_keys_upsert_paper_author:
  "map pa_key (upsert_paper_author row rows) =
     (if pa_key row \<in> set (map pa_key rows) then map pa_key rows
      else map pa_key rows @ [pa_key row])"
  by (simp add: upsert_paper_author_def o_def cong: map_cong)

lemma distinct_fold_upsert_paper_author:
  "distinct (map pa_key rows) \<Longrightarrow> distinct (map pa_key (fold upsert_paper_author new rows))"
  by (induction new arbitrary: rows) (simp_all add: pa_keys_upsert_paper_author)

lemma distinct_fold_insert_paper_category:
  "distinct rows \<Longrightarrow> distinct (fold insert_paper_category new rows)"
  by (induction new arbitrary: rows) (simp_all add: insert_paper_category_def)

lemma unique_keys_record_applied:
  assumes "unique_keys s"
  shows "unique_keys (record_applied r s)"
proof -
  let ?s2 = "upsert_paper (paper_values r) (primary_category_applied r s)"
  have cats: "distinct (map fst (categories_meta (record_applied r s)))"
    using assms
    by (simp add: record_applied_def Let_def categories_applied_def unique_keys_def
        insert_paper_categories_def primary_category_applied_def
        distinct_insert_categories distinct_insert_category split: option.splits)
  have ps: "distinct (map paper_id (papers (record_applied r s)))"
    using assms by (simp add: record_applied_def Let_def unique_keys_def distinct_upsert_paper)
  have as: "distinct (map snd (authors (record_applied r s))) \<and>
            distinct (map fst (authors (record_applied r s)))"
    using assms distinct_add_authors [of ?s2 "r_authors r"]
    by (simp add: record_applied_def Let_def unique_keys_def)
  have pas: "distinct (map pa_key (paper_authors (record_applied r s)))"
    using assms
    by (simp add: record_applied_def Let_def unique_keys_def upsert_paper_authors_def
        distinct_fold_upsert_paper_author)
  have pcs: "distinct (paper_categories (record_applied r s))"
    using assms
    by (simp add: record_applied_def Let_def unique_keys_def categories_applied_def
        insert_paper_categories_def distinct_fold_insert_paper_category)
  from cats ps as pas pcs show ?thesis by (simp add: unique_keys_def)
qed

subsection \<open>The paper row after an apply\<close>

lemma filter_key_absent: "a \<notin> k ` set xs \<Longrightarrow> filter (\<lambda>p. k p = a) xs = []"
  by (induction xs) auto

lemma filter_key_updated:
  assumes "distinct (map k xs)" and "a \<in> k ` set xs" and "\<And>x. k (f x) = k x"
  shows "\<exists>x \<in> set xs. k x = a \<and>
           filter (\<lambda>p. k p = a) (map (\<lambda>old. if k old = a then f old else old) xs) = [f x]"
  using assms(1,2)
proof (induction xs)
  case Nil
  then show ?case by simp
next
  case (Cons y ys)
  show ?case
  proof (cases "k y = a")
    case True
    with Cons.prems have "a \<notin> k ` set ys" by auto
    then have "filter (\<lambda>p. k p = a) ys = []"
      by (rule filter_key_absent)
    then have "\<forall>y \<in> set ys. k y \<noteq> a"
      by (simp add: filter_empty_conv)
    then have "map (\<lambda>old. if k old = a then f old else old) ys = ys"
      by (simp add: map_idI)
    with \<open>filter (\<lambda>p. k p = a) ys = []\<close> True assms(3) [of y] show ?thesis by simp
  next
    case False
    with Cons.prems have "distinct (map k ys)" and "a \<in> k ` set ys" by auto
    from Cons.IH [OF this] False show ?thesis by auto
  qed
qed

lemma incoming_values_overwrite:
  "paper_id old = paper_id new \<Longrightarrow> incoming_values new (overwrite_paper new old)"
  by (simp add: incoming_values_def overwrite_paper_def)

lemma upsert_paper_row:
  assumes "distinct (map paper_id (papers s))"
  shows "\<exists>row. filter (\<lambda>p. paper_id p = paper_id new) (papers (upsert_paper new s)) = [row] \<and>
               incoming_values new row"
proof (cases "paper_id new \<in> paper_id ` set (papers s)")
  case False
  then show ?thesis
    by (simp add: upsert_paper_def incoming_values_def filter_key_absent)
next
  case True
  from filter_key_updated [OF assms True, of "overwrite_paper new"] True show ?thesis
    by (auto simp: upsert_paper_def incoming_values_overwrite)
qed

subsection \<open>When no statement raises\<close>

lemma execute_no_statement_fault:
  "\<forall>k. flt \<noteq> StatementError k \<Longrightarrow> execute flt f t = Inr (Suc (fst t), f (snd t))"
  by (simp add: execute_def)

lemma execute_returning_no_statement_fault:
  "\<forall>k. flt \<noteq> StatementError k \<Longrightarrow>
   execute_returning flt f t = Inr ((Suc (fst t), fst (f (snd t))), snd (f (snd t)))"
  by (simp add: execute_returning_def)

lemma link_authors_no_statement_fault:
  assumes "\<forall>k. flt \<noteq> StatementError k"
  shows "\<exists>k. link_authors flt pid i names acc t =
           Inr ((k, add_authors names (snd t)), acc @ author_rows pid i names (snd t))"
proof (induction names arbitrary: i acc t)
  case Nil
  show ?case by (cases t) (simp add: add_authors_def)
next
  case (Cons name rest)
  obtain aid where aid: "snd (upsert_author name (snd t)) = Some aid"
    using upsert_author_Some by blast
  from Cons.IH [of "Suc i" "acc @ [(pid, aid, i + 1)]"
      "(Suc (fst t), fst (upsert_author name (snd t)))"]
  show ?case
    by (simp add: execute_returning_no_statement_fault [OF assms] and_then_def aid
        add_authors_def)
qed

lemma ensure_primary_category_no_statement_fault:
  "\<forall>k. flt \<noteq> StatementError k \<Longrightarrow>
   \<exists>k. ensure_primary_category flt r t = Inr (k, primary_category_applied r (snd t))"
  by (cases t)
    (simp add: ensure_primary_category_def primary_category_applied_def
      execute_no_statement_fault split: option.splits)

lemma link_categories_no_statement_fault:
  "\<forall>k. flt \<noteq> StatementError k \<Longrightarrow>
   \<exists>k. link_categories flt pid codes t = Inr (k, categories_applied pid codes (snd t))"
  by (cases t)
    (simp add: link_categories_def categories_applied_def Let_def and_then_def
      execute_no_statement_fault insert_categories_Nil insert_paper_categories_Nil)

lemma apply_steps_no_statement_fault:
  assumes "\<forall>k. flt \<noteq> StatementError k"
  shows "\<exists>k. apply_steps flt r t = Inr (k, record_applied r (snd t))"
proof -
  obtain k1 where 1: "ensure_primary_category flt r t = Inr (k1, primary_category_applied r (snd t))"
    using ensure_primary_category_no_statement_fault [OF assms] by blast
  let ?s2 = "upsert_paper (paper_values r) (primary_category_applied r (snd t))"
  let ?rows = "author_rows (paper_id_of r) 0 (r_authors r) ?s2"
  obtain k3 where 3: "link_authors flt (paper_id_of r) 0 (r_authors r) [] (Suc k1, ?s2) =
      Inr ((k3, add_authors (r_authors r) ?s2), ?rows)"
    using link_authors_no_statement_fault [OF assms, of "paper_id_of r" 0 "r_authors r" "[]" "(Suc k1, ?s2)"]
    by auto
  let ?s4 = "upsert_paper_authors ?rows (add_authors (r_authors r) ?s2)"
  have "\<exists>k4. (if ?rows \<noteq> [] then execute flt (upsert_paper_authors ?rows)
       (k3, add_authors (r_authors r) ?s2) else Inr (k3, add_authors (r_authors r) ?s2)) = Inr (k4, ?s4)"
    by (cases "?rows = []")
      (simp_all add: execute_no_statement_fault [OF assms] upsert_paper_authors_Nil)
  then obtain k4 where 4: "(if ?rows \<noteq> [] then execute flt (upsert_paper_authors ?rows)
       (k3, add_authors (r_authors r) ?s2) else Inr (k3, add_authors (r_authors r) ?s2)) = Inr (k4, ?s4)"
    by blast
  obtain k5 where 5: "link_categories flt (paper_id_of r) (r_categories r) (k4, ?s4) =
      Inr (k5, categories_applied (paper_id_of r) (r_categories r) ?s4)"
    using link_categories_no_statement_fault [OF assms, of "paper_id_of r" "r_categories r" "(k4, ?s4)"]
    by auto
  have "apply_steps flt r t = Inr (k5, record_applied r (snd t))"
    unfolding apply_steps_def
    by (simp add: and_then_def 1 execute_no_statement_fault [OF assms] 3 4 5 record_applied_def
        Let_def)
  then show ?thesis ..
qed

lemma insert_paper_data_NoFault:
  "insert_paper_data NoFault c r = Inr (connect (record_applied r (working c)), True)"
proof -
  obtain k where "apply_steps NoFault r (0, working c) = Inr (k, record_applied r (working c))"
    using apply_steps_no_statement_fault [of NoFault r "(0, working c)"] by auto
  then show ?thesis
    by (simp add: insert_paper_data_def and_then_def execute_def commit_def connect_def)
qed

lemma apply_steps_Inl:
  "apply_steps flt r t = Inl e \<Longrightarrow> \<exists>k. flt = StatementError k"
  using apply_steps_no_statement_fault [of flt r t] by auto

subsection \<open>The paper row of an applied record\<close>

lemma filter_paper_values_id:
  "paper_id (paper_values r) = paper_id_of r"
  by (simp add: paper_values_def)

lemma papers_record_applied:
  "papers (record_applied r s) = papers (upsert_paper (paper_values r) s)"
  by (simp add: record_applied_def Let_def upsert_paper_def)

lemma record_applied_row:
  assumes "unique_keys s"
  shows "\<exists>row. filter (\<lambda>p. paper_id p = paper_id_of r) (papers (record_applied r s)) = [row] \<and>
               incoming_values (paper_values r) row"
  using upsert_paper_row [of s "paper_values r"] assms
  by (simp add: papers_record_applied unique_keys_def filter_paper_values_id)

subsection \<open>Each table after an apply, from the same table before\<close>

lemma upsert_author_cong:
  assumes "authors s = authors s'"
  shows "authors (fst (upsert_author name s)) = authors (fst (upsert_author name s'))"
    and "snd (upsert_author name s) = snd (upsert_author name s')"
  using assms
  by (simp_all add: upsert_author_def select_author_id_def next_author_id_def
      split: option.splits)

lemma add_authors_cong:
  "authors s = authors s' \<Longrightarrow> authors (add_authors names s) = authors (add_authors names s')"
  unfolding add_authors_def
proof (induction names arbitrary: s s')
  case Nil
  then show ?case by simp
next
  case (Cons name rest)
  have "authors (fst (upsert_author name s)) = authors (fst (upsert_author name s'))"
    using Cons.prems by (rule upsert_author_cong(1))
  from Cons.IH [OF this] show ?case by simp
qed

lemma author_rows_cong:
  "authors s = authors s' \<Longrightarrow> author_rows pid i names s = author_rows pid i names s'"
proof (induction names arbitrary: i s s')
  case Nil
  then show ?case by simp
next
  case (Cons name rest)
  have 1: "authors (fst (upsert_author name s)) = authors (fst (upsert_author name s'))"
    using Cons.prems by (rule upsert_author_cong(1))
  have 2: "snd (upsert_author name s) = snd (upsert_author name s')"
    using Cons.prems by (rule upsert_author_cong(2))
  from Cons.IH [OF 1, of "Suc i"] 2 show ?case by simp
qed

lemma authors_authors_only [simp]: "authors (authors_only rows) = rows"
  by (simp add: authors_only_def)

lemma authors_record_applied:
  "authors (record_applied r s) = authors (add_authors (r_authors r) (authors_only (authors s)))"
proof -
  have "authors (record_applied r s) =
      authors (add_authors (r_authors r)
        (upsert_paper (paper_values r) (primary_category_applied r s)))"
    by (simp add: record_applied_def Let_def)
  also have "\<dots> = authors (add_authors (r_authors r) (authors_only (authors s)))"
    by (rule add_authors_cong) simp
  finally show ?thesis .
qed

lemma paper_authors_record_applied:
  "paper_authors (record_applied r s) =
     fold upsert_paper_author
       (author_rows (paper_id_of r) 0 (r_authors r) (authors_only (authors s))) (paper_authors s)"
proof -
  have "author_rows (paper_id_of r) 0 (r_authors r)
          (upsert_paper (paper_values r) (primary_category_applied r s)) =
        author_rows (paper_id_of r) 0 (r_authors r) (authors_only (authors s))"
    by (rule author_rows_cong) simp
  then show ?thesis
    by (simp add: record_applied_def Let_def upsert_paper_authors_def)
qed

lemma paper_categories_record_applied:
  "paper_categories (record_applied r s) =
     fold insert_paper_category
       (map (\<lambda>code. (paper_id_of r, code)) (filter (\<lambda>code. code \<noteq> []) (r_categories r)))
       (paper_categories s)"
  by (simp add: record_applied_def Let_def categories_applied_def insert_paper_categories_def)

lemma papers_upsert_paper:
  "papers (upsert_paper new s) =
     (if paper_id new \<in> set (map paper_id (papers s))
      then map (\<lambda>old. if paper_id old = paper_id new then overwrite_paper new old else old) (papers s)
      else papers s @ [new])"
  by (simp add: upsert_paper_def)

subsection \<open>The schedule of a run does not depend on what the fetches meet\<close>

lemma fetch_group_outline:
  "map outline (snd (snd (fetch_group w date_str batch_s max_t cats st))) =
     map outline (snd (snd st)) @ map (\<lambda>category. Fetch category max_t) cats"
proof (induction cats arbitrary: st)
  case Nil
  show ?case by simp
next
  case (Cons category rest)
  obtain total_inserted c tr where st: "st = (total_inserted, c, tr)"
    by (cases st) auto
  obtain count c' events where
    f: "fetch_papers_by_category_to_db w category date_str c batch_s (Some max_t) =
          (count, c', events)"
    by (cases "fetch_papers_by_category_to_db w category date_str c batch_s (Some max_t)") auto
  show ?case
    by (simp add: st f Cons.IH)
qed

lemma fetch_groups_outline:
  "map outline (snd (snd (fetch_groups w date_str batch_s max_t sleep_t groups st))) =
     map outline (snd (snd st)) @ concat (map (group_schedule max_t sleep_t) groups)"
proof (induction groups arbitrary: st)
  case Nil
  show ?case by simp
next
  case (Cons g rest)
  obtain total_inserted c tr where
    f: "fetch_group w date_str batch_s max_t g st = (total_inserted, c, tr)"
    by (cases "fetch_group w date_str batch_s max_t g st") auto
  have tr: "map outline tr = map outline (snd (snd st)) @ map (\<lambda>category. Fetch category max_t) g"
    using fetch_group_outline [of w date_str batch_s max_t g st] by (simp add: f)
  show ?case
    by (simp add: f Cons.IH tr group_schedule_def)
qed

lemma fetch_tiers_outline:
  "map outline (snd (snd (fetch_tiers w date_str tiers st))) =
     map outline (snd (snd st)) @ concat (map tier_schedule tiers)"
proof (induction tiers arbitrary: st)
  case Nil
  show ?case by simp
next
  case (Cons tier rest)
  obtain categories vol_type batch_s max_t sleep_t where
    tier: "tier = (categories, vol_type, batch_s, max_t, sleep_t)"
    by (cases tier) auto
  show ?case
    by (simp add: tier Cons.IH fetch_groups_outline tier_schedule_def)
qed

lemma daily_outline:
  "map outline (snd (snd (fetch_daily_papers_to_db w date_str s))) =
     concat (map tier_schedule category_processing_order)"
  by (simp add: fetch_daily_papers_to_db_def fetch_tiers_outline)

lemma slices_Nil: "slices n [] = []"
  by (subst slices.simps) simp

lemma slices_2: "slices 2 (a # b # xs) = [a, b] # slices 2 xs"
  by (subst slices.simps) simp

lemma slices_5: "slices 5 (a # b # c # d # e # xs) = [a, b, c, d, e] # slices 5 xs"
  by (subst slices.simps) simp

lemma slices_5_3: "slices 5 [a, b, c] = [[a, b, c]]"
  by (subst slices.simps) (simp add: slices_Nil)

lemma high_schedule:
  "tier_schedule (HIGH_VOLUME_CATEGORIES, ''HIGH'', 50, 500, 5) =
     [Fetch ''cs.AI'' 500, Wait 5, Fetch ''cs.CV'' 500, Wait 5,
      Fetch ''cs.LG'' 500, Wait 5, Fetch ''cs.CL'' 500, Wait 5]"
  by (simp add: tier_schedule_def groups_of_def group_schedule_def HIGH_VOLUME_CATEGORIES_def)

lemma medium_schedule:
  "tier_schedule (MEDIUM_VOLUME_CATEGORIES, ''MEDIUM'', 100, 300, 3) =
     [Fetch ''cs.CR'' 300, Fetch ''cs.NE'' 300, Wait 3,
      Fetch ''cs.RO'' 300, Fetch ''cs.IR'' 300, Wait 3,
      Fetch ''cs.SE'' 300, Fetch ''cs.SI'' 300, Wait 3,
      Fetch ''cs.HC'' 300, Fetch ''cs.DB'' 300, Wait 3]"
  by (simp add: tier_schedule_def groups_of_def group_schedule_def MEDIUM_VOLUME_CATEGORIES_def
      slices_2 slices_Nil)

lemma low_schedule:
  "tier_schedule (LOW_VOLUME_CATEGORIES, ''LOW'', 100, 150, 2) =
     [Fetch ''cs.AR'' 150, Fetch ''cs.CC'' 150, Fetch ''cs.CE'' 150, Fetch ''cs.CG'' 150,
      Fetch ''cs.CY'' 150, Wait 2,
      Fetch ''cs.DC'' 150, Fetch ''cs.DL'' 150, Fetch ''cs.DM'' 150, Fetch ''cs.DS'' 150,
      Fetch ''cs.ET'' 150, Wait 2,
      Fetch ''cs.FL'' 150, Fetch ''cs.GL'' 150, Fetch ''cs.GR'' 150, Fetch ''cs.GT'' 150,
      Fetch ''cs.IT'' 150, Wait 2,
      Fetch ''cs.LO'' 150, Fetch ''cs.MA'' 150, Fetch ''cs.MM'' 150, Fetch ''cs.MS'' 150,
      Fetch ''cs.NA'' 150, Wait 2,
      Fetch ''cs.NI'' 150, Fetch ''cs.OH'' 150, Fetch ''cs.OS'' 150, Fetch ''cs.PF'' 150,
      Fetch ''cs.PL'' 150, Wait 2,
      Fetch ''cs.SC'' 150, Fetch ''cs.SD'' 150, Fetch ''cs.SY'' 150, Wait 2]"
  by (simp add: tier_schedule_def groups_of_def group_schedule_def LOW_VOLUME_CATEGORIES_def
      slices_5 slices_5_3 slices_Nil)

subsection \<open>The retry loop, unrolled\<close>

lemma fetch_loop_third:
  "fetch_loop w q mt (Suc (Suc 0)) n c tr =
     (case api w q (max_results mt) 2 of
        Results rs \<Rightarrow>
          if length rs = 0 then (0, c, tr @ [ApiCall q (max_results mt)])
          else (case process_results (db_fault w q 2) 0 rs c n of
                  (raised, c', n') \<Rightarrow> (n', c', tr @ [ApiCall q (max_results mt)]))
      | HTTPError \<Rightarrow> (n, c, tr @ [ApiCall q (max_results mt)])
      | UnexpectedError \<Rightarrow> (n, c, tr @ [ApiCall q (max_results mt)]))"
  by (subst fetch_loop.simps) (simp add: max_api_call_failures_def numeral_2_eq_2 split: api_outcome.split)

lemma fetch_loop_second:
  "fetch_loop w q mt (Suc 0) n c tr =
     (case api w q (max_results mt) (Suc 0) of
        Results rs \<Rightarrow>
          if length rs = 0 then (0, c, tr @ [ApiCall q (max_results mt)])
          else (case process_results (db_fault w q 1) 0 rs c n of
                  (raised, c', n') \<Rightarrow> (n', c', tr @ [ApiCall q (max_results mt)]))
      | HTTPError \<Rightarrow>
          fetch_loop w q mt (Suc (Suc 0)) n c (tr @ [ApiCall q (max_results mt), Sleep 15])
      | UnexpectedError \<Rightarrow> (n, c, tr @ [ApiCall q (max_results mt)]))"
  by (subst fetch_loop.simps) (simp add: max_api_call_failures_def numeral_2_eq_2 split: api_outcome.split)

lemma fetch_loop_first:
  "fetch_loop w q mt 0 n c tr =
     (case api w q (max_results mt) 0 of
        Results rs \<Rightarrow>
          if length rs = 0 then (0, c, tr @ [ApiCall q (max_results mt)])
          else (case process_results (db_fault w q 0) 0 rs c n of
                  (raised, c', n') \<Rightarrow> (n', c', tr @ [ApiCall q (max_results mt)]))
      | HTTPError \<Rightarrow>
          fetch_loop w q mt (Suc 0) n c (tr @ [ApiCall q (max_results mt), Sleep 15])
      | UnexpectedError \<Rightarrow> (n, c, tr @ [ApiCall q (max_results mt)]))"
  by (subst fetch_loop.simps) (simp add: max_api_call_failures_def numeral_2_eq_2 split: api_outcome.split)

lemma daily_fetched_categories:
  "concat (map fetched_category (snd (snd (fetch_daily_papers_to_db w date_str s)))) =
     HIGH_VOLUME_CATEGORIES @ MEDIUM_VOLUME_CATEGORIES @ LOW_VOLUME_CATEGORIES"
proof -
  define step_category where
    "step_category = (\<lambda>st. case st of Fetch category max_t \<Rightarrow> [category] | Wait sleep_t \<Rightarrow> [])"
  have "fetched_category e = step_category (outline e)" for e
    by (cases e) (simp_all add: step_category_def)
  then have "concat (map fetched_category tr) = concat (map step_category (map outline tr))" for tr
    by (induction tr) simp_all
  then have "concat (map fetched_category (snd (snd (fetch_daily_papers_to_db w date_str s)))) =
      concat (map step_category (concat (map tier_schedule category_processing_order)))"
    by (simp only: daily_outline)
  also have "\<dots> = HIGH_VOLUME_CATEGORIES @ MEDIUM_VOLUME_CATEGORIES @ LOW_VOLUME_CATEGORIES"
    unfolding category_processing_order_def list.map high_schedule medium_schedule low_schedule
    by (simp add: step_category_def HIGH_VOLUME_CATEGORIES_def MEDIUM_VOLUME_CATEGORIES_def
        LOW_VOLUME_CATEGORIES_def)
  finally show ?thesis .
qed


lemma fetch_trace_shapes:
  "snd (snd (fetch_loop w q mt 0 0 c [])) \<in>
     {[ApiCall q (max_results mt)],
      [ApiCall q (max_results mt), Sleep 15, ApiCall q (max_results mt)],
      [ApiCall q (max_results mt), Sleep 15, ApiCall q (max_results mt), Sleep 15,
       ApiCall q (max_results mt)]}"
  by (simp add: fetch_loop_first fetch_loop_second fetch_loop_third
      split: api_outcome.split prod.split)

subsection \<open>Retries of the JSON fetch variant that do end\<close>

lemma raising_first_returns:
  "call \<le> n \<Longrightarrow>
   fetch_papers_by_category (Suc (n - call)) strftime (raising_first n) category date_str call
     batch_size max_total = Some ([], replicate (n - call) 10)"
proof (induction "n - call" arbitrary: call max_total)
  case 0
  then show ?case by (simp add: raising_first_def)
next
  case (Suc d)
  then have d: "d = n - Suc call" and le: "Suc call \<le> n" and lt: "call < n" by simp_all
  have nc: "n - call = Suc (n - Suc call)" using lt by simp
  show ?case
    unfolding nc
    using Suc.hyps(1) [OF d le, of "Some (max_retry max_total)"] lt
    by (simp add: raising_first_def max_failures_def)
qed

lemma raising_first_needs_depth:
  "call \<le> n \<Longrightarrow> depth \<le> n - call \<Longrightarrow>
   fetch_papers_by_category depth strftime (raising_first n) category date_str call
     batch_size max_total = None"
proof (induction depth arbitrary: call max_total)
  case 0
  show ?case by simp
next
  case (Suc depth)
  then have "Suc call \<le> n" and "depth \<le> n - Suc call" and "call < n" by simp_all
  from Suc.IH [OF this(1,2), of "Some (max_retry max_total)"] \<open>call < n\<close> show ?case
    by (simp add: raising_first_def max_failures_def)
qed

subsection \<open>The statements of the batched path only add rows\<close>

lemma grows_refl: "grows s s"
  by (simp add: grows_def)

lemma grows_trans: "grows s t \<Longrightarrow> grows t u \<Longrightarrow> grows s u"
  unfolding grows_def by (meson prefix_order.order_trans)

lemma ignoring_id: "ignoring (\<lambda>s. s)"
  by (simp add: ignoring_def grows_refl)

lemma ignoring_fold:
  assumes "\<And>x. ignoring (f x)"
  shows "ignoring (fold f xs)"
proof (induction xs)
  case Nil
  show ?case by (simp add: ignoring_def grows_refl)
next
  case (Cons x xs)
  show ?case
    unfolding ignoring_def
  proof (intro allI conjI impI)
    fix s
    have 1: "grows s (f x s)" using assms [of x] by (simp add: ignoring_def)
    have 2: "grows (f x s) (fold f xs (f x s))" using Cons.IH by (simp add: ignoring_def)
    from grows_trans [OF 1 2] show "grows s (fold f (x # xs) s)" by simp
  next
    fix s
    assume "unique_keys s"
    then have "unique_keys (f x s)" using assms [of x] by (simp add: ignoring_def)
    then show "unique_keys (fold f (x # xs) s)" using Cons.IH by (simp add: ignoring_def)
  qed
qed

lemma ignoring_insert_paper: "ignoring (\<lambda>s. fst (insert_paper_ignore row s))"
  by (auto simp: ignoring_def grows_def unique_keys_def insert_paper_ignore_def)

lemma ignoring_insert_category: "ignoring (insert_category row)"
  by (auto simp: ignoring_def grows_def unique_keys_def insert_category_def)

lemma ignoring_insert_category_codes: "ignoring (insert_category_codes codes)"
  unfolding insert_category_codes_def insert_categories_def
  by (rule ignoring_fold) (rule ignoring_insert_category)

lemma ignoring_insert_author: "ignoring (insert_author_ignore name)"
  using next_author_id_fresh
  by (auto simp: ignoring_def grows_def unique_keys_def insert_author_ignore_def)

lemma ignoring_insert_authors: "ignoring (insert_authors_ignore names)"
  unfolding insert_authors_ignore_def
  by (rule ignoring_fold) (rule ignoring_insert_author)

lemma prefix_fold_append_if:
  assumes "\<And>x ys. f x ys = ys \<or> f x ys = ys @ [x]"
  shows "prefix ys (fold f xs ys)"
proof (induction xs arbitrary: ys)
  case Nil
  show ?case by simp
next
  case (Cons x xs)
  have "prefix ys (f x ys)" using assms [of x ys] by auto
  with Cons.IH [of "f x ys"] show ?case
    by (metis fold_simps(2) prefix_order.order_trans)
qed

lemma distinct_fold_insert_paper_author_ignore:
  "distinct (map pa_key rows) \<Longrightarrow>
   distinct (map pa_key (fold insert_paper_author_ignore new rows))"
  by (induction new arbitrary: rows) (simp_all add: insert_paper_author_ignore_def)

lemma ignoring_insert_paper_authors: "ignoring (insert_paper_authors_ignore rows)"
proof -
  have "prefix ys (fold insert_paper_author_ignore rows ys)" for ys
    by (rule prefix_fold_append_if) (simp add: insert_paper_author_ignore_def)
  then show ?thesis
    by (simp add: ignoring_def grows_def unique_keys_def insert_paper_authors_ignore_def
        distinct_fold_insert_paper_author_ignore)
qed

lemma ignoring_insert_paper_categories: "ignoring (insert_paper_categories rows)"
proof -
  have "prefix ys (fold insert_paper_category rows ys)" for ys
    by (rule prefix_fold_append_if) (simp add: insert_paper_category_def)
  then show ?thesis
    by (simp add: ignoring_def grows_def unique_keys_def insert_paper_categories_def
        distinct_fold_insert_paper_category)
qed

subsection \<open>The import keeps the connection sound\<close>

lemma on_both_and_then:
  assumes "on_both P m" and "\<And>st. P st \<Longrightarrow> on_both P (f st)"
  shows "on_both P (and_then m f)"
  using assms by (cases m) (simp_all add: on_both_def and_then_def)

lemma on_both_Inr: "P st \<Longrightarrow> on_both P (Inr st)"
  by (simp add: on_both_def)

lemma sound_execute:
  assumes "ignoring stmt" and "sound s0 (db st)"
  shows "on_both (\<lambda>st. sound s0 (db st)) (im_execute raises stmt st)"
proof -
  from assms(1) have g: "grows (working (db st)) (stmt (working (db st)))"
    and u: "unique_keys (working (db st)) \<Longrightarrow> unique_keys (stmt (working (db st)))"
    by (simp_all add: ignoring_def)
  from assms(2) have "grows s0 (stmt (working (db st)))"
    using g by (auto simp: sound_def intro: grows_trans)
  with assms(2) u show ?thesis
    by (simp add: on_both_def im_execute_def sound_def)
qed

lemma sound_commit:
  "sound s0 (db st) \<Longrightarrow> on_both (\<lambda>st. sound s0 (db st)) (im_commit raises st)"
  by (simp add: on_both_def im_commit_def sound_def commit_def)

lemma sound_rollback: "sound s0 c \<Longrightarrow> sound s0 (rollback c)"
  by (simp add: sound_def rollback_def)

lemma sound_connect: "unique_keys s \<Longrightarrow> sound s (connect s)"
  by (simp add: sound_def connect_def grows_refl)

lemma sound_refresh_author_ids:
  "sound s0 (db st) \<Longrightarrow>
   on_both (\<lambda>st. sound s0 (db st)) (refresh_author_ids raises names st)"
proof (induction names arbitrary: st)
  case Nil
  then show ?case by (simp add: on_both_def)
next
  case (Cons author names)
  show ?case
  proof (cases "map_of (author_name_to_id st) author = Some None")
    case False
    with Cons show ?thesis by simp
  next
    case True
    have "on_both (\<lambda>st. sound s0 (db st))
        (and_then (im_execute raises (\<lambda>s. s) st) (\<lambda>st1.
          case select_author_id author (working (db st1)) of
            Some aid \<Rightarrow>
              refresh_author_ids raises names
                (st1\<lparr>author_name_to_id := dict_set author (Some aid) (author_name_to_id st1)\<rparr>)
          | None \<Rightarrow> refresh_author_ids raises names st1))"
    proof (rule on_both_and_then)
      show "on_both (\<lambda>st. sound s0 (db st)) (im_execute raises (\<lambda>s. s) st)"
        using ignoring_id Cons.prems by (rule sound_execute)
    next
      fix st1 :: import_state
      assume "sound s0 (db st1)"
      then show "on_both (\<lambda>st. sound s0 (db st))
          (case select_author_id author (working (db st1)) of
            Some aid \<Rightarrow>
              refresh_author_ids raises names
                (st1\<lparr>author_name_to_id := dict_set author (Some aid) (author_name_to_id st1)\<rparr>)
          | None \<Rightarrow> refresh_author_ids raises names st1)"
        by (cases "select_author_id author (working (db st1))") (simp_all add: Cons.IH)
    qed
    with True show ?thesis by simp
  qed
qed

lemma sound_execute_then:
  assumes "ignoring stmt" and "sound s0 (db st)"
    and "\<And>st1. sound s0 (db st1) \<Longrightarrow> on_both (\<lambda>st. sound s0 (db st)) (k st1)"
  shows "on_both (\<lambda>st. sound s0 (db st)) (and_then (im_execute raises stmt st) k)"
  by (rule on_both_and_then [OF sound_execute [OF assms(1,2)] assms(3)])

lemma sound_flush_batch:
  assumes "sound s0 (db st)"
  shows "on_both (\<lambda>st. sound s0 (db st)) (flush_batch raises papers_json i st)"
  unfolding flush_batch_def
proof (intro on_both_and_then)
  show "on_both (\<lambda>st. sound s0 (db st))
     (if new_categories st \<noteq> []
      then and_then (im_execute raises (insert_category_codes (new_categories st)) st)
             (\<lambda>st1. Inr (st1\<lparr>new_categories := []\<rparr>))
      else Inr st)"
    using assms
    by (auto intro!: sound_execute_then ignoring_insert_category_codes on_both_Inr)
next
  fix st1 :: import_state
  assume "sound s0 (db st1)"
  then show "on_both (\<lambda>st. sound s0 (db st))
     (if new_authors st1 \<noteq> []
      then and_then (im_execute raises (insert_authors_ignore (new_authors st1)) st1)
             (\<lambda>st2. refresh_author_ids raises (map fst (author_name_to_id st2))
                      (st2\<lparr>new_authors := []\<rparr>))
      else Inr st1)"
    by (auto intro!: sound_execute_then ignoring_insert_authors sound_refresh_author_ids
        on_both_Inr)
next
  fix st1 st2 :: import_state
  assume "sound s0 (db st2)"
  then show "on_both (\<lambda>st. sound s0 (db st))
     (if new_paper_authors st2 @
           paper_author_rows (author_name_to_id st2) (py_slice (i - 99) (i + 1) papers_json)
         \<noteq> []
      then and_then
             (im_execute raises
                (insert_paper_authors_ignore
                   (new_paper_authors st2 @
                    paper_author_rows (author_name_to_id st2)
                      (py_slice (i - 99) (i + 1) papers_json)))
                (st2\<lparr>new_paper_authors := new_paper_authors st2 @
                        paper_author_rows (author_name_to_id st2)
                          (py_slice (i - 99) (i + 1) papers_json)\<rparr>))
             (\<lambda>st3. Inr (st3\<lparr>new_paper_authors := []\<rparr>))
      else Inr st2)"
    by (auto intro!: sound_execute_then ignoring_insert_paper_authors on_both_Inr)
next
  fix st1 st2 st3 :: import_state
  assume "sound s0 (db st3)"
  then show "on_both (\<lambda>st. sound s0 (db st))
     (if new_paper_categories st3 \<noteq> []
      then and_then
             (im_execute raises (insert_paper_categories (new_paper_categories st3)) st3)
             (\<lambda>st4. Inr (st4\<lparr>new_paper_categories := []\<rparr>))
      else Inr st3)"
    by (auto intro!: sound_execute_then ignoring_insert_paper_categories on_both_Inr)
next
  fix st1 st2 st3 st4 :: import_state
  assume "sound s0 (db st4)"
  then show "on_both (\<lambda>st. sound s0 (db st)) (im_commit raises st4)"
    by (rule sound_commit)
qed

lemma sound_final_flush:
  assumes "sound s0 (db st)"
  shows "on_both (\<lambda>st. sound s0 (db st)) (final_flush raises papers_json st)"
  unfolding final_flush_def
proof (intro on_both_and_then)
  show "on_both (\<lambda>st. sound s0 (db st))
     (if new_categories st \<noteq> []
      then im_execute raises (insert_category_codes (new_categories st)) st
      else Inr st)"
    using assms by (auto intro!: sound_execute ignoring_insert_category_codes on_both_Inr)
next
  fix st1 :: import_state
  assume "sound s0 (db st1)"
  then show "on_both (\<lambda>st. sound s0 (db st))
     (if new_authors st1 \<noteq> []
      then and_then (im_execute raises (insert_authors_ignore (new_authors st1)) st1)
             (\<lambda>st2. refresh_author_ids raises (map fst (author_name_to_id st2)) st2)
      else Inr st1)"
    by (auto intro!: sound_execute_then ignoring_insert_authors sound_refresh_author_ids
        on_both_Inr)
next
  fix st1 st2 :: import_state
  assume "sound s0 (db st2)"
  then show "on_both (\<lambda>st. sound s0 (db st))
     (if new_paper_authors st2 @ paper_author_rows (author_name_to_id st2) papers_json \<noteq> []
      then im_execute raises
             (insert_paper_authors_ignore
                (new_paper_authors st2 @ paper_author_rows (author_name_to_id st2) papers_json))
             (st2\<lparr>new_paper_authors := new_paper_authors st2 @
                     paper_author_rows (author_name_to_id st2) papers_json\<rparr>)
      else Inr st2)"
    by (auto intro!: sound_execute ignoring_insert_paper_authors on_both_Inr)
next
  fix st1 st2 st3 :: import_state
  assume "sound s0 (db st3)"
  then show "on_both (\<lambda>st. sound s0 (db st))
     (if new_paper_categories st3 \<noteq> []
      then im_execute raises (insert_paper_categories (new_paper_categories st3)) st3
      else Inr st3)"
    by (auto intro!: sound_execute ignoring_insert_paper_categories on_both_Inr)
next
  fix st1 st2 st3 st4 :: import_state
  assume "sound s0 (db st4)"
  then show "on_both (\<lambda>st. sound s0 (db st)) (im_commit raises st4)"
    by (rule sound_commit)
qed

lemma db_fold_note_category [simp]: "db (fold note_category cats st) = db st"
  by (induction cats arbitrary: st) (simp_all add: note_category_def)

lemma db_fold_note_author [simp]: "db (fold note_author names st) = db st"
  by (induction names arbitrary: st) (simp_all add: note_author_def)

lemma sound_handled:
  assumes "on_both (\<lambda>st. sound s0 (db st)) body"
  shows "sound s0 (db (case body of Inr st' \<Rightarrow> st'
           | Inl st' \<Rightarrow> st'\<lparr>db := rollback (db st'), printed := line st'\<rparr>))"
  using assms by (cases body) (simp_all add: on_both_def sound_rollback)

lemma sound_import_paper:
  assumes "sound s0 (db st)"
  shows "sound s0 (db (import_paper raises parse papers_json i paper st))"
proof (cases "missing (j_id paper)")
  case True
  with assms show ?thesis by (simp add: import_paper_def)
next
  case False
  have st2: "sound s0 (db (fold note_author (j_authors paper)
     (fold note_category (j_categories paper)
        (if missing (j_title paper) then st\<lparr>printed := printed st @ [NoTitle ident]\<rparr> else st))))"
    for ident
    using assms by simp
  show ?thesis
    unfolding import_paper_def try_paper_def Let_def
    apply (simp only: False if_False)
    apply (rule sound_handled)
    apply (rule sound_execute_then [OF ignoring_insert_paper st2])
    apply (auto intro!: sound_flush_batch on_both_Inr)
    done
qed

lemma sound_import_loop:
  "sound s0 (db st) \<Longrightarrow> sound s0 (db (import_loop raises parse papers_json i ps st))"
  by (induction ps arbitrary: i st) (simp_all add: sound_import_paper)

lemma sound_preload:
  assumes "sound s0 (db st)"
  shows "on_both (\<lambda>st. sound s0 (db st)) (preload raises st)"
  unfolding preload_def
  by (intro on_both_and_then sound_execute ignoring_id on_both_Inr) (simp_all add: assms)

lemma sound_main:
  assumes "unique_keys s"
  shows "sound s (db (main raises parse papers_json s))"
proof -
  define st0 where "st0 = initial_state s"
  define run where "run = and_then (preload raises st0) (\<lambda>st.
      final_flush raises papers_json (import_loop raises parse papers_json 0 papers_json st))"
  have "sound s (db st0)"
    using assms by (simp add: st0_def initial_state_def sound_connect)
  then have "on_both (\<lambda>st. sound s (db st)) run"
    unfolding run_def
    by (intro on_both_and_then sound_preload sound_final_flush sound_import_loop)
  then have "sound s (db (case run of Inr st \<Rightarrow> st
      | Inl st \<Rightarrow> st\<lparr>db := rollback (db st), printed := printed st @ [ErrorDuringImport]\<rparr>))"
    by (cases run) (simp_all add: on_both_def sound_rollback)
  then show ?thesis
    by (simp add: main_def run_def st0_def)
qed

lemma filter_key_member:
  "distinct (map k xs) \<Longrightarrow> x \<in> set xs \<Longrightarrow> filter (\<lambda>p. k p = k x) xs = [x]"
proof (induction xs)
  case Nil
  then show ?case by simp
next
  case (Cons y ys)
  show ?case
  proof (cases "x = y")
    case True
    with Cons.prems have "k x \<notin> k ` set ys" by auto
    then have "filter (\<lambda>p. k p = k x) ys = []" by (rule filter_key_absent)
    with True show ?thesis by simp
  next
    case False
    with Cons.prems have "x \<in> set ys" "distinct (map k ys)" "k y \<noteq> k x" by force+
    with Cons.IH show ?thesis by simp
  qed
qed

lemma unique_keys_stored: "unique_keys stored"
  by (simp add: unique_keys_def stored_def pa_key_def)

subsection \<open>The author links of an applied record\<close>

lemma find_append_Some: "find P xs = Some x \<Longrightarrow> find P (xs @ ys) = Some x"
  by (induction xs) (auto split: if_splits)

lemma select_author_id_upsert_stable:
  "select_author_id name s = Some i \<Longrightarrow>
   select_author_id name (fst (upsert_author other s)) = Some i"
  by (cases "select_author_id other s")
    (auto simp: upsert_author_def select_author_id_def dest: find_append_Some)

lemma select_author_id_add_stable:
  "select_author_id name s = Some i \<Longrightarrow> select_author_id name (add_authors names s) = Some i"
  unfolding add_authors_def
  by (induction names arbitrary: s) (simp_all add: select_author_id_upsert_stable)

lemma find_append_new:
  "find P xs = None \<Longrightarrow> P y \<Longrightarrow> find P (xs @ [y]) = Some y"
  by (induction xs) (auto split: if_splits)

lemma select_author_id_upsert_self:
  "select_author_id name (fst (upsert_author name s)) = snd (upsert_author name s)"
proof (cases "select_author_id name s")
  case None
  then have "find (\<lambda>row. snd row = name) (authors s) = None"
    by (simp add: select_author_id_def)
  then have "find (\<lambda>row. snd row = name) (authors s @ [(next_author_id s, name)]) =
      Some (next_author_id s, name)"
    by (rule find_append_new) simp
  with None show ?thesis
    by (simp add: upsert_author_def select_author_id_def)
next
  case (Some i)
  then show ?thesis by (simp add: upsert_author_def)
qed

lemma author_rows_final_ids:
  "author_rows pid i names s =
     map (\<lambda>(j, name). (pid, the (select_author_id name (add_authors names s)), i + j + 1))
       (enumerate 0 names)"
proof (induction names arbitrary: i s)
  case Nil
  show ?case by simp
next
  case (Cons name rest)
  let ?s1 = "fst (upsert_author name s)"
  obtain aid where aid: "snd (upsert_author name s) = Some aid"
    using upsert_author_Some by blast
  then have "select_author_id name ?s1 = Some aid"
    by (simp add: select_author_id_upsert_self)
  then have final: "select_author_id name (add_authors rest ?s1) = Some aid"
    by (rule select_author_id_add_stable)
  have shift: "map (\<lambda>(j, name). (pid, the (select_author_id name (add_authors rest ?s1)), Suc i + j + 1))
        (enumerate 0 rest) =
      map (\<lambda>(j, name). (pid, the (select_author_id name (add_authors rest ?s1)), i + j + 1))
        (enumerate (Suc 0) rest)"
    by (auto simp: enumerate_eq_zip map_zip_map2 [symmetric] zip_map1 map_Suc_upt [symmetric]
        simp del: upt_Suc)
  show ?case
    using Cons.IH [of "Suc i" ?s1] aid final shift
    by (simp add: add_authors_def)
qed

lemma select_author_id_added:
  "name \<in> set names \<Longrightarrow> \<exists>aid. select_author_id name (add_authors names s) = Some aid"
proof (induction names arbitrary: s)
  case Nil
  then show ?case by simp
next
  case (Cons a rest)
  show ?case
  proof (cases "name = a")
    case True
    obtain aid where "snd (upsert_author a s) = Some aid"
      using upsert_author_Some by blast
    then have "select_author_id a (fst (upsert_author a s)) = Some aid"
      by (simp add: select_author_id_upsert_self)
    then have "select_author_id a (add_authors rest (fst (upsert_author a s))) = Some aid"
      by (rule select_author_id_add_stable)
    with True show ?thesis by (simp add: add_authors_def)
  next
    case False
    with Cons.prems have "name \<in> set rest" by simp
    from Cons.IH [OF this, of "fst (upsert_author a s)"] show ?thesis
      by (simp add: add_authors_def)
  qed
qed

lemma upsert_paper_author_member: "row \<in> set (upsert_paper_author row rows)"
  by (auto simp: upsert_paper_author_def)

lemma upsert_paper_author_other:
  "row \<in> set rows \<Longrightarrow> pa_key x \<noteq> pa_key row \<Longrightarrow> row \<in> set (upsert_paper_author x rows)"
  by (auto simp: upsert_paper_author_def)

lemma fold_upsert_paper_author_keeps:
  "row \<in> set rows \<Longrightarrow> pa_key row \<notin> pa_key ` set new \<Longrightarrow>
   row \<in> set (fold upsert_paper_author new rows)"
proof (induction new arbitrary: rows)
  case Nil
  then show ?case by simp
next
  case (Cons x new)
  from Cons.prems have "row \<in> set (upsert_paper_author x rows)"
    by (intro upsert_paper_author_other) auto
  moreover from Cons.prems have "pa_key row \<notin> pa_key ` set new" by simp
  ultimately show ?case using Cons.IH by simp
qed

lemma fold_upsert_paper_author_members:
  "distinct (map pa_key new) \<Longrightarrow> row \<in> set new \<Longrightarrow>
   row \<in> set (fold upsert_paper_author new rows)"
proof (induction new arbitrary: rows)
  case Nil
  then show ?case by simp
next
  case (Cons x new)
  show ?case
  proof (cases "row = x")
    case True
    from Cons.prems(1) have "pa_key x \<notin> pa_key ` set new" by simp
    with True show ?thesis
      by (simp add: fold_upsert_paper_author_keeps upsert_paper_author_member)
  next
    case False
    with Cons.prems have "row \<in> set new" "distinct (map pa_key new)" by simp_all
    with Cons.IH show ?thesis by simp
  qed
qed

lemma select_author_id_injective:
  assumes "distinct (map fst (authors s))"
    and "select_author_id a s = Some i" and "select_author_id b s = Some i"
  shows "a = b"
proof -
  from assms(2,3) have "(i, a) \<in> set (authors s)" "(i, b) \<in> set (authors s)"
    by (auto dest: select_author_id_Some)
  with assms(1) show ?thesis
    by (meson eq_key_imp_eq_value)
qed

lemma map_snd_zip_fun:
  "length xs = length ys \<Longrightarrow> map (\<lambda>x. f (snd x)) (zip xs ys) = map f ys"
  by (induction xs ys rule: list_induct2) simp_all

lemma applied_author_links:
  assumes "unique_keys s" and "distinct (r_authors r)" and "j < length (r_authors r)"
  shows "\<exists>aid. (aid, r_authors r ! j) \<in> set (authors (record_applied r s)) \<and>
               (paper_id_of r, aid, j + 1) \<in> set (paper_authors (record_applied r s))"
proof -
  let ?names = "r_authors r"
  let ?t = "add_authors ?names (authors_only (authors s))"
  let ?rows = "author_rows (paper_id_of r) 0 ?names (authors_only (authors s))"
  let ?row = "\<lambda>(j, name). (paper_id_of r, the (select_author_id name ?t), 0 + j + 1)"
  have at: "authors (record_applied r s) = authors ?t"
    by (rule authors_record_applied)
  have ids: "distinct (map fst (authors ?t))"
    using unique_keys_record_applied [OF assms(1), of r] by (simp add: unique_keys_def at)
  have rows: "?rows = map ?row (enumerate 0 ?names)"
    by (rule author_rows_final_ids)
  have found: "\<exists>aid. select_author_id name ?t = Some aid" if "name \<in> set ?names" for name
    using that by (rule select_author_id_added)
  have inj: "inj_on (\<lambda>name. the (select_author_id name ?t)) (set ?names)"
  proof (rule inj_onI)
    fix a b
    assume a: "a \<in> set ?names" and b: "b \<in> set ?names"
      and eq: "the (select_author_id a ?t) = the (select_author_id b ?t)"
    from found [OF a] found [OF b] eq obtain i where
      "select_author_id a ?t = Some i" "select_author_id b ?t = Some i" by auto
    with ids show "a = b" by (rule select_author_id_injective)
  qed
  have keys: "map pa_key ?rows =
      map (\<lambda>name. (paper_id_of r, the (select_author_id name ?t))) ?names"
    unfolding rows
    by (simp add: enumerate_eq_zip pa_key_def o_def split_def) (rule map_snd_zip_fun, simp)
  have "distinct (map pa_key ?rows)"
    unfolding keys using assms(2) inj
    by (simp add: distinct_map inj_on_def)
  moreover
  have "?rows ! j = (paper_id_of r, the (select_author_id (?names ! j) ?t), j + 1)"
    unfolding rows using assms(3) by (simp add: nth_enumerate_eq)
  then have "(paper_id_of r, the (select_author_id (?names ! j) ?t), j + 1) \<in> set ?rows"
    using assms(3) by (metis author_rows_final_ids length_enumerate length_map nth_mem)
  ultimately have "(paper_id_of r, the (select_author_id (?names ! j) ?t), j + 1)
      \<in> set (paper_authors (record_applied r s))"
    unfolding paper_authors_record_applied by (rule fold_upsert_paper_author_members)
  moreover
  from found [of "?names ! j"] assms(3) obtain aid where
    aid: "select_author_id (?names ! j) ?t = Some aid" by auto
  then have "(aid, ?names ! j) \<in> set (authors ?t)" by (rule select_author_id_Some)
  ultimately show ?thesis using aid at by auto
qed

subsection \<open>A pass of the import loop in which no call raises\<close>

lemma returns_Inr: "Q st \<Longrightarrow> returns Q (Inr st)"
  by (simp add: returns_def)

lemma returns_and_then:
  assumes "returns Q m" and "\<And>st. Q st \<Longrightarrow> returns R (f st)"
  shows "returns R (and_then m f)"
  using assms by (cases m) (simp_all add: returns_def and_then_def)

lemma keeps_papers_fold:
  assumes "\<And>x. keeps_papers (f x)"
  shows "keeps_papers (fold f xs)"
  unfolding keeps_papers_def
proof
  fix s
  show "papers (fold f xs s) = papers s"
    using assms by (induction xs arbitrary: s) (simp_all add: keeps_papers_def)
qed

lemma keeps_papers_statements:
  "keeps_papers (\<lambda>s. s)"
  "keeps_papers (insert_category_codes codes)"
  "keeps_papers (insert_authors_ignore names)"
  "keeps_papers (insert_paper_authors_ignore rows)"
  "keeps_papers (insert_paper_categories pcs)"
proof -
  show "keeps_papers (\<lambda>s. s)" by (simp add: keeps_papers_def)
  show "keeps_papers (insert_category_codes codes)"
    by (simp add: keeps_papers_def insert_category_codes_def)
  show "keeps_papers (insert_authors_ignore names)"
    unfolding insert_authors_ignore_def
    by (rule keeps_papers_fold) (simp add: keeps_papers_def insert_author_ignore_def)
  show "keeps_papers (insert_paper_authors_ignore rows)"
    by (simp add: keeps_papers_def insert_paper_authors_ignore_def)
  show "keeps_papers (insert_paper_categories pcs)"
    by (simp add: keeps_papers_def)
qed

lemma returns_execute:
  assumes "\<forall>k. \<not> raises k" and "keeps_papers stmt" and "papers (working (db st)) = P"
  shows "returns (\<lambda>st. papers (working (db st)) = P) (im_execute raises stmt st)"
  using assms by (simp add: returns_def im_execute_def keeps_papers_def)

lemma returns_execute_then:
  assumes "\<forall>k. \<not> raises k" and "keeps_papers stmt" and "papers (working (db st)) = P"
    and "\<And>st1. papers (working (db st1)) = P \<Longrightarrow>
           returns (\<lambda>st. papers (working (db st)) = P) (k st1)"
  shows "returns (\<lambda>st. papers (working (db st)) = P) (and_then (im_execute raises stmt st) k)"
  by (rule returns_and_then [OF returns_execute [OF assms(1,2,3)] assms(4)])

lemma returns_commit:
  assumes "\<forall>k. \<not> raises k" and "papers (working (db st)) = P"
  shows "returns (\<lambda>st. papers (working (db st)) = P) (im_commit raises st)"
  using assms by (simp add: returns_def im_commit_def commit_def)

lemma returns_refresh_author_ids:
  assumes "\<forall>k. \<not> raises k"
  shows "papers (working (db st)) = P \<Longrightarrow>
   returns (\<lambda>st. papers (working (db st)) = P) (refresh_author_ids raises names st)"
proof (induction names arbitrary: st)
  case Nil
  then show ?case by (simp add: returns_def)
next
  case (Cons author names)
  show ?case
  proof (cases "map_of (author_name_to_id st) author = Some None")
    case False
    with Cons show ?thesis by simp
  next
    case True
    have "returns (\<lambda>st. papers (working (db st)) = P)
        (and_then (im_execute raises (\<lambda>s. s) st) (\<lambda>st1.
          case select_author_id author (working (db st1)) of
            Some aid \<Rightarrow>
              refresh_author_ids raises names
                (st1\<lparr>author_name_to_id := dict_set author (Some aid) (author_name_to_id st1)\<rparr>)
          | None \<Rightarrow> refresh_author_ids raises names st1))"
    proof (rule returns_execute_then [OF assms keeps_papers_statements(1) Cons.prems])
      fix st1 :: import_state
      assume "papers (working (db st1)) = P"
      then show "returns (\<lambda>st. papers (working (db st)) = P)
          (case select_author_id author (working (db st1)) of
            Some aid \<Rightarrow>
              refresh_author_ids raises names
                (st1\<lparr>author_name_to_id := dict_set author (Some aid) (author_name_to_id st1)\<rparr>)
          | None \<Rightarrow> refresh_author_ids raises names st1)"
        by (cases "select_author_id author (working (db st1))") (simp_all add: Cons.IH)
    qed
    with True show ?thesis by simp
  qed
qed

lemma returns_flush_batch:
  assumes "\<forall>k. \<not> raises k" and "papers (working (db st)) = P"
  shows "returns (\<lambda>st. papers (working (db st)) = P) (flush_batch raises papers_json i st)"
  unfolding flush_batch_def
proof (intro returns_and_then [where Q = "\<lambda>st. papers (working (db st)) = P"])
  show "returns (\<lambda>st. papers (working (db st)) = P)
     (if new_categories st \<noteq> []
      then and_then (im_execute raises (insert_category_codes (new_categories st)) st)
             (\<lambda>st1. Inr (st1\<lparr>new_categories := []\<rparr>))
      else Inr st)"
    using assms
    by (auto intro!: returns_execute_then keeps_papers_statements returns_Inr)
next
  fix st1 :: import_state
  assume "papers (working (db st1)) = P"
  then show "returns (\<lambda>st. papers (working (db st)) = P)
     (if new_authors st1 \<noteq> []
      then and_then (im_execute raises (insert_authors_ignore (new_authors st1)) st1)
             (\<lambda>st2. refresh_author_ids raises (map fst (author_name_to_id st2))
                      (st2\<lparr>new_authors := []\<rparr>))
      else Inr st1)"
    using assms(1)
    by (auto intro!: returns_execute_then keeps_papers_statements returns_refresh_author_ids
        returns_Inr)
next
  fix st1 st2 :: import_state
  assume "papers (working (db st2)) = P"
  then show "returns (\<lambda>st. papers (working (db st)) = P)
     (if new_paper_authors st2 @
           paper_author_rows (author_name_to_id st2) (py_slice (i - 99) (i + 1) papers_json)
         \<noteq> []
      then and_then
             (im_execute raises
                (insert_paper_authors_ignore
                   (new_paper_authors st2 @
                    paper_author_rows (author_name_to_id st2)
                      (py_slice (i - 99) (i + 1) papers_json)))
                (st2\<lparr>new_paper_authors := new_paper_authors st2 @
                        paper_author_rows (author_name_to_id st2)
                          (py_slice (i - 99) (i + 1) papers_json)\<rparr>))
             (\<lambda>st3. Inr (st3\<lparr>new_paper_authors := []\<rparr>))
      else Inr st2)"
    using assms(1)
    by (auto intro!: returns_execute_then keeps_papers_statements returns_Inr)
next
  fix st1 st2 st3 :: import_state
  assume "papers (working (db st3)) = P"
  then show "returns (\<lambda>st. papers (working (db st)) = P)
     (if new_paper_categories st3 \<noteq> []
      then and_then
             (im_execute raises (insert_paper_categories (new_paper_categories st3)) st3)
             (\<lambda>st4. Inr (st4\<lparr>new_paper_categories := []\<rparr>))
      else Inr st3)"
    using assms(1)
    by (auto intro!: returns_execute_then keeps_papers_statements returns_Inr)
next
  fix st1 st2 st3 st4 :: import_state
  assume "papers (working (db st4)) = P"
  with assms(1) show "returns (\<lambda>st. papers (working (db st)) = P) (im_commit raises st4)"
    by (rule returns_commit)
qed

lemma returned_state:
  assumes "returns Q body"
  shows "Q (case body of Inr st' \<Rightarrow> st' | Inl st' \<Rightarrow> handler st')"
  using assms by (cases body) (simp_all add: returns_def)

lemma import_paper_inserts:
  assumes "\<forall>k. \<not> raises k" and "\<not> missing (j_id paper)"
    and "text_of (j_id paper) \<notin> set (map paper_id (papers (working (db st))))"
  shows "papers (working (db (import_paper raises parse papers_json i paper st))) =
     papers (working (db st)) @
       [json_values parse (text_of (j_id paper))
          (if missing (j_title paper) then [] else text_of (j_title paper)) paper]"
proof -
  let ?row = "json_values parse (text_of (j_id paper))
          (if missing (j_title paper) then [] else text_of (j_title paper)) paper"
  let ?P = "papers (working (db st)) @ [?row]"
  have ins: "returns (\<lambda>st. papers (working (db st)) = ?P)
      (im_execute raises (\<lambda>s. fst (insert_paper_ignore ?row s)) st2)"
    if "db st2 = db st" for st2 :: import_state
    using assms(1,3) that
    by (simp add: returns_def im_execute_def insert_paper_ignore_def json_values_def)
  show ?thesis
    unfolding import_paper_def try_paper_def Let_def
    apply (simp only: assms(2) if_False)
    apply (rule returned_state [where Q = "\<lambda>st. papers (working (db st)) = ?P"])
    apply (rule returns_and_then [OF ins])
     apply simp
    apply (auto intro!: returns_flush_batch returns_Inr assms(1))
    done
qed

subsection \<open>Transaction boundaries\<close>

lemma insert_paper_data_clean:
  "insert_paper_data flt c r = Inr (c', ok) \<Longrightarrow> working c' = committed c'"
  by (auto simp: insert_paper_data_def commit_def rollback_def split: if_splits sum.splits)

lemma process_results_clean:
  "working c = committed c \<Longrightarrow> process_results dbf i rs c n = (raised, c', n') \<Longrightarrow>
   working c' = committed c'"
proof (induction rs arbitrary: i c n)
  case Nil
  then show ?case by simp
next
  case (Cons r rs)
  show ?case
  proof (cases "insert_paper_data (dbf i) c r")
    case (Inl e)
    with Cons.prems show ?thesis by simp
  next
    case (Inr p)
    obtain c1 ok where p: "p = (c1, ok)" by (cases p)
    from Inr p have "working c1 = committed c1" by (auto dest: insert_paper_data_clean)
    from Cons.IH [OF this] Cons.prems(2) Inr p show ?thesis by simp
  qed
qed

subsection \<open>The text of the query\<close>

lemma query_text:
  "query_of category date_str =
     ''submittedDate:['' @ date_str @ ''000000 TO '' @ date_str @ ''235959] AND cat:'' @ category"
  by (simp add: query_of_def date_query_start_def date_query_end_def)

lemma query_text_example:
  "query_of ''cs.AI'' ''20240115'' =
     ''submittedDate:[20240115000000 TO 20240115235959] AND cat:cs.AI''"
  by (simp add: query_text)

subsection \<open>A pass of the import loop that raises\<close>

lemma on_raise_and_then:
  assumes "on_both Q m" and "\<And>st. Q st \<Longrightarrow> P st" and "\<And>st. Q st \<Longrightarrow> on_raise P (f st)"
  shows "on_raise P (and_then m f)"
  using assms by (cases m) (simp_all add: on_both_def on_raise_def and_then_def)

lemma committed_execute:
  "committed (db st) = C \<Longrightarrow>
   on_both (\<lambda>st. committed (db st) = C) (im_execute raises stmt st)"
  by (simp add: on_both_def im_execute_def)

lemma committed_execute_then:
  assumes "committed (db st) = C"
    and "\<And>st1. committed (db st1) = C \<Longrightarrow> on_both (\<lambda>st. committed (db st) = C) (k st1)"
  shows "on_both (\<lambda>st. committed (db st) = C) (and_then (im_execute raises stmt st) k)"
  by (rule on_both_and_then [OF committed_execute [OF assms(1)] assms(2)])

lemma committed_refresh_author_ids:
  "committed (db st) = C \<Longrightarrow>
   on_both (\<lambda>st. committed (db st) = C) (refresh_author_ids raises names st)"
proof (induction names arbitrary: st)
  case Nil
  then show ?case by (simp add: on_both_def)
next
  case (Cons author names)
  show ?case
  proof (cases "map_of (author_name_to_id st) author = Some None")
    case False
    with Cons show ?thesis by simp
  next
    case True
    have "on_both (\<lambda>st. committed (db st) = C)
        (and_then (im_execute raises (\<lambda>s. s) st) (\<lambda>st1.
          case select_author_id author (working (db st1)) of
            Some aid \<Rightarrow>
              refresh_author_ids raises names
                (st1\<lparr>author_name_to_id := dict_set author (Some aid) (author_name_to_id st1)\<rparr>)
          | None \<Rightarrow> refresh_author_ids raises names st1))"
    proof (rule committed_execute_then [OF Cons.prems])
      fix st1 :: import_state
      assume "committed (db st1) = C"
      then show "on_both (\<lambda>st. committed (db st) = C)
          (case select_author_id author (working (db st1)) of
            Some aid \<Rightarrow>
              refresh_author_ids raises names
                (st1\<lparr>author_name_to_id := dict_set author (Some aid) (author_name_to_id st1)\<rparr>)
          | None \<Rightarrow> refresh_author_ids raises names st1)"
        by (cases "select_author_id author (working (db st1))") (simp_all add: Cons.IH)
    qed
    with True show ?thesis by simp
  qed
qed

lemma committed_commit:
  "committed (db st) = C \<Longrightarrow> on_raise (\<lambda>st. committed (db st) = C) (im_commit raises st)"
  by (simp add: on_raise_def im_commit_def)

lemma flush_batch_raise:
  assumes "committed (db st) = C"
  shows "on_raise (\<lambda>st. committed (db st) = C) (flush_batch raises papers_json i st)"
  unfolding flush_batch_def
proof (intro on_raise_and_then [where Q = "\<lambda>st. committed (db st) = C"])
  show "on_both (\<lambda>st. committed (db st) = C)
     (if new_categories st \<noteq> []
      then and_then (im_execute raises (insert_category_codes (new_categories st)) st)
             (\<lambda>st1. Inr (st1\<lparr>new_categories := []\<rparr>))
      else Inr st)"
    using assms by (auto intro!: committed_execute_then on_both_Inr)
next
  fix st1 :: import_state
  assume "committed (db st1) = C"
  then show "on_both (\<lambda>st. committed (db st) = C)
     (if new_authors st1 \<noteq> []
      then and_then (im_execute raises (insert_authors_ignore (new_authors st1)) st1)
             (\<lambda>st2. refresh_author_ids raises (map fst (author_name_to_id st2))
                      (st2\<lparr>new_authors := []\<rparr>))
      else Inr st1)"
    by (auto intro!: committed_execute_then committed_refresh_author_ids on_both_Inr)
next
  fix st1 st2 :: import_state
  assume "committed (db st2) = C"
  then show "on_both (\<lambda>st. committed (db st) = C)
     (if new_paper_authors st2 @
           paper_author_rows (author_name_to_id st2) (py_slice (i - 99) (i + 1) papers_json)
         \<noteq> []
      then and_then
             (im_execute raises
                (insert_paper_authors_ignore
                   (new_paper_authors st2 @
                    paper_author_rows (author_name_to_id st2)
                      (py_slice (i - 99) (i + 1) papers_json)))
                (st2\<lparr>new_paper_authors := new_paper_authors st2 @
                        paper_author_rows (author_name_to_id st2)
                          (py_slice (i - 99) (i + 1) papers_json)\<rparr>))
             (\<lambda>st3. Inr (st3\<lparr>new_paper_authors := []\<rparr>))
      else Inr st2)"
    by (auto intro!: committed_execute_then on_both_Inr)
next
  fix st1 st2 st3 :: import_state
  assume "committed (db st3) = C"
  then show "on_both (\<lambda>st. committed (db st) = C)
     (if new_paper_categories st3 \<noteq> []
      then and_then
             (im_execute raises (insert_paper_categories (new_paper_categories st3)) st3)
             (\<lambda>st4. Inr (st4\<lparr>new_paper_categories := []\<rparr>))
      else Inr st3)"
    by (auto intro!: committed_execute_then on_both_Inr)
next
  fix st1 st2 st3 st4 :: import_state
  assume "committed (db st4) = C"
  then show "on_raise (\<lambda>st. committed (db st) = C) (im_commit raises st4)"
    by (rule committed_commit)
qed simp_all

lemma on_raise_Inr: "on_raise P (Inr st)"
  by (simp add: on_raise_def)

lemma try_paper_raise:
  "on_raise (\<lambda>st'. committed (db st') = committed (db st))
     (try_paper raises parse papers_json i paper ident ttl st)"
  unfolding try_paper_def Let_def
  by (rule on_raise_and_then [OF committed_execute [OF refl]])
    (auto intro!: flush_batch_raise on_raise_Inr)

lemma try_paper_Inl:
  "try_paper raises parse papers_json i paper ident ttl st = Inl st' \<Longrightarrow>
   committed (db st') = committed (db st)"
  using try_paper_raise [of st raises parse papers_json i paper ident ttl]
  by (simp add: on_raise_def)

section \<open>Idempotence of the per-record path\<close>

text \<open>
  C1. Let the store satisfy its unique constraints and let the same record be applied
  twice in succession by \<open>insert_paper_data\<close>, both applies reporting success. Then the
  papers table holds exactly one row with the record's identifier, that row carries the
  values the second apply sent for title, abstract, primary category, URL, timestamps,
  journal reference and DOI, and neither paper_authors nor paper_categories holds two
  rows with the same key.
\<close>

theorem apply_twice_one_row:
  assumes "unique_keys (working c)"
    and "insert_paper_data f1 c r = Inr (c1, True)"
    and "insert_paper_data f2 c1 r = Inr (c2, True)"
  shows "\<exists>row. filter (\<lambda>p. paper_id p = paper_id_of r) (papers (committed c2)) = [row] \<and>
           title row = r_title r \<and>
           abstract row = Some (replace_newlines (r_summary r)) \<and>
           primary_category_code row = r_primary_category r \<and>
           pdf_url row = r_pdf_url r \<and>
           arxiv_published_at row = Some (r_published r) \<and>
           arxiv_updated_at row = Some (r_updated r) \<and>
           journal_ref row = r_journal_ref r \<and>
           doi row = r_doi r \<and>
           distinct (map pa_key (paper_authors (committed c2))) \<and>
           distinct (paper_categories (committed c2))"
proof -
  have c1: "c1 = connect (record_applied r (working c))"
    using assms(2) by (rule insert_paper_data_True)
  have c2: "c2 = connect (record_applied r (working c1))"
    using assms(3) by (rule insert_paper_data_True)
  have u1: "unique_keys (working c1)"
    using assms(1) by (simp add: c1 connect_def unique_keys_record_applied)
  then have u2: "unique_keys (committed c2)"
    by (simp add: c2 connect_def unique_keys_record_applied)
  from record_applied_row [OF u1, of r] obtain row where
    "filter (\<lambda>p. paper_id p = paper_id_of r) (papers (committed c2)) = [row]"
    and "incoming_values (paper_values r) row"
    by (auto simp: c2 connect_def)
  with u2 show ?thesis
    by (auto simp: incoming_values_def paper_values_def unique_keys_def)
qed

theorem apply_twice_one_row_witness:
  "unique_keys (working (connect empty_store)) \<and>
   insert_paper_data NoFault (connect empty_store) sample_result =
     Inr (connect (record_applied sample_result empty_store), True) \<and>
   insert_paper_data NoFault (connect (record_applied sample_result empty_store)) sample_result =
     Inr (connect (record_applied sample_result (record_applied sample_result empty_store)), True) \<and>
   (\<exists>row. filter (\<lambda>p. paper_id p = ''2401.12345v1'')
             (papers (record_applied sample_result (record_applied sample_result empty_store))) = [row] \<and>
          title row = ''On Upserts'' \<and> abstract row = Some ''Two lines. Joined.'') \<and>
   distinct (map pa_key
      (paper_authors (record_applied sample_result (record_applied sample_result empty_store))))"
proof -
  let ?c0 = "connect empty_store"
  let ?c1 = "connect (record_applied sample_result empty_store)"
  let ?c2 = "connect (record_applied sample_result (record_applied sample_result empty_store))"
  have h1: "unique_keys (working ?c0)"
    by (simp add: unique_keys_def connect_def empty_store_def)
  have h2: "insert_paper_data NoFault ?c0 sample_result = Inr (?c1, True)"
    by (simp add: insert_paper_data_NoFault connect_def)
  have h3: "insert_paper_data NoFault ?c1 sample_result = Inr (?c2, True)"
    by (simp add: insert_paper_data_NoFault connect_def)
  have id: "paper_id_of sample_result = ''2401.12345v1''"
    by (simp add: paper_id_of_def sample_result_def)
  have ab: "replace_newlines (r_summary sample_result) = ''Two lines. Joined.''"
    by (simp add: replace_newlines_def sample_result_def)
  have ti: "r_title sample_result = ''On Upserts''"
    by (simp add: sample_result_def)
  from apply_twice_one_row [OF h1 h2 h3] h1 h2 h3 show ?thesis
    unfolding id ab ti by (auto simp: connect_def)
qed

section \<open>The end-to-end scenario\<close>

lemma paper_id_of_raw_record:
  "paper_id_of (raw_record ''2401.00001'' ttl names codes other) = ''2401.00001''"
  by (simp add: paper_id_of_def raw_record_def)

lemma raw_record_fields:
  "r_title (raw_record ident ttl names codes other) = ttl"
  "r_authors (raw_record ident ttl names codes other) = names"
  "r_categories (raw_record ident ttl names codes other) = codes"
  by (simp_all add: raw_record_def)

lemmas author_statement_defs =
  add_authors_def upsert_author_def select_author_id_def next_author_id_def authors_only_def
  empty_store_def

lemma scenario_first:
  fixes o1 :: paper_result
  defines "r1 \<equiv> raw_record ''2401.00001'' ''A'' [''X'', ''Y''] [''cs.AI'', ''cs.LG''] o1"
  shows "papers (record_applied r1 empty_store) = [paper_values r1]"
    and "authors (record_applied r1 empty_store) = [(1, ''X''), (2, ''Y'')]"
    and "paper_authors (record_applied r1 empty_store) =
           [(''2401.00001'', 1, 1), (''2401.00001'', 2, 2)]"
    and "paper_categories (record_applied r1 empty_store) =
           [(''2401.00001'', ''cs.AI''), (''2401.00001'', ''cs.LG'')]"
proof -
  show "papers (record_applied r1 empty_store) = [paper_values r1]"
    by (simp add: papers_record_applied papers_upsert_paper) (simp add: empty_store_def)
  show "authors (record_applied r1 empty_store) = [(1, ''X''), (2, ''Y'')]"
    by (simp add: authors_record_applied r1_def raw_record_fields)
      (simp add: author_statement_defs)
  show "paper_authors (record_applied r1 empty_store) =
           [(''2401.00001'', 1, 1), (''2401.00001'', 2, 2)]"
    by (simp add: paper_authors_record_applied r1_def raw_record_fields paper_id_of_raw_record)
      (simp add: author_statement_defs upsert_paper_author_def pa_key_def)
  show "paper_categories (record_applied r1 empty_store) =
           [(''2401.00001'', ''cs.AI''), (''2401.00001'', ''cs.LG'')]"
    by (simp add: paper_categories_record_applied r1_def raw_record_fields
        paper_id_of_raw_record)
      (simp add: insert_paper_category_def empty_store_def)
qed

lemma scenario_second:
  fixes o2 :: paper_result
  defines "r2 \<equiv> raw_record ''2401.00001'' ''A revised'' [''Y'', ''X''] [''cs.AI''] o2"
  assumes "map paper_id (papers s) = [''2401.00001'']"
    and "authors s = [(1, ''X''), (2, ''Y'')]"
    and "paper_authors s = [(''2401.00001'', 1, 1), (''2401.00001'', 2, 2)]"
    and "paper_categories s = [(''2401.00001'', ''cs.AI''), (''2401.00001'', ''cs.LG'')]"
  shows "map (\<lambda>p. (paper_id p, title p)) (papers (record_applied r2 s)) =
           [(''2401.00001'', ''A revised'')]"
    and "authors (record_applied r2 s) = [(1, ''X''), (2, ''Y'')]"
    and "paper_authors (record_applied r2 s) =
           [(''2401.00001'', 1, 2), (''2401.00001'', 2, 1)]"
    and "paper_categories (record_applied r2 s) =
           [(''2401.00001'', ''cs.AI''), (''2401.00001'', ''cs.LG'')]"
proof -
  from assms(2) obtain p where p: "papers s = [p]" and pid: "paper_id p = ''2401.00001''"
    by (cases "papers s") auto
  have v: "paper_id (paper_values r2) = ''2401.00001''" "title (paper_values r2) = ''A revised''"
    by (simp_all add: paper_values_def r2_def paper_id_of_raw_record raw_record_fields)
  show "map (\<lambda>p. (paper_id p, title p)) (papers (record_applied r2 s)) =
           [(''2401.00001'', ''A revised'')]"
    by (simp add: papers_record_applied papers_upsert_paper p pid v overwrite_paper_def)
  show "authors (record_applied r2 s) = [(1, ''X''), (2, ''Y'')]"
    by (simp add: authors_record_applied r2_def raw_record_fields assms(3))
      (simp add: author_statement_defs)
  show "paper_authors (record_applied r2 s) =
           [(''2401.00001'', 1, 2), (''2401.00001'', 2, 1)]"
    by (simp add: paper_authors_record_applied r2_def raw_record_fields paper_id_of_raw_record
        assms(3,4))
      (simp add: author_statement_defs upsert_paper_author_def pa_key_def)
  show "paper_categories (record_applied r2 s) =
           [(''2401.00001'', ''cs.AI''), (''2401.00001'', ''cs.LG'')]"
    by (simp add: paper_categories_record_applied r2_def raw_record_fields
        paper_id_of_raw_record assms(5))
      (simp add: insert_paper_category_def)
qed

text \<open>
  C2. On an empty store, the record with identifier 2401.00001, title A, authors X, Y and
  categories cs.AI, cs.LG is applied, then the record with the same identifier, title
  A revised, authors Y, X and category cs.AI; the fields the scenario does not name are
  arbitrary. Both applies succeed. Afterwards papers holds one row, with title A revised;
  authors holds X (id 1) and Y (id 2); paper_authors holds Y at position 1 and X at
  position 2 and nothing else; paper_categories holds the links to cs.AI and to cs.LG,
  the second left from the first apply.
\<close>

theorem end_to_end_scenario:
  "case process_results (\<lambda>i. NoFault) 0
          [raw_record ''2401.00001'' ''A'' [''X'', ''Y''] [''cs.AI'', ''cs.LG''] o1,
           raw_record ''2401.00001'' ''A revised'' [''Y'', ''X''] [''cs.AI''] o2]
          (connect empty_store) 0 of
     (raised, c, n) \<Rightarrow>
       raised = None \<and> n = 2 \<and> working c = committed c \<and>
       map (\<lambda>p. (paper_id p, title p)) (papers (committed c)) = [(''2401.00001'', ''A revised'')] \<and>
       authors (committed c) = [(1, ''X''), (2, ''Y'')] \<and>
       paper_authors (committed c) = [(''2401.00001'', 1, 2), (''2401.00001'', 2, 1)] \<and>
       paper_categories (committed c) =
         [(''2401.00001'', ''cs.AI''), (''2401.00001'', ''cs.LG'')]"
proof -
  let ?r1 = "raw_record ''2401.00001'' ''A'' [''X'', ''Y''] [''cs.AI'', ''cs.LG''] o1"
  let ?r2 = "raw_record ''2401.00001'' ''A revised'' [''Y'', ''X''] [''cs.AI''] o2"
  let ?s1 = "record_applied ?r1 empty_store"
  have run: "process_results (\<lambda>i. NoFault) 0 [?r1, ?r2] (connect empty_store) 0 =
      (None, connect (record_applied ?r2 ?s1), 2)"
    by (simp add: insert_paper_data_NoFault connect_def)
  have ids: "map paper_id (papers ?s1) = [''2401.00001'']"
    by (simp add: scenario_first(1) paper_values_def paper_id_of_raw_record)
  note second = scenario_second [OF ids scenario_first(2) scenario_first(3) scenario_first(4), of o2]
  show ?thesis
    unfolding run by (simp add: connect_def second)
qed

section \<open>A failed apply has no effect\<close>

text \<open>
  C3. Every apply ends in a commit or a rollback, so an apply begins on a connection
  without uncommitted work. If an error is then raised during steps 1 to 4 of
  \<open>insert_paper_data\<close>, the call returns False and the connection is exactly as it was
  before the call: nothing of the record is in the working store, and the committed
  store, with every record committed earlier, is untouched. In the batched import, when
  the try block of a pass raises, the rollback of the handler leaves the committed store
  as it was before the pass and makes it the working store again.
\<close>

theorem failed_apply_rolled_back:
  "(working c = committed c \<and> apply_steps flt r (0, working c) = Inl e \<longrightarrow>
      insert_paper_data flt c r = Inr (c, False)) \<and>
   (try_paper raises parse papers_json i paper ident ttl st = Inl st' \<longrightarrow>
      committed (rollback (db st')) = committed (db st) \<and>
      working (rollback (db st')) = committed (db st))"
proof (intro conjI impI)
  assume h: "working c = committed c \<and> apply_steps flt r (0, working c) = Inl e"
  then have clean: "working c = committed c"
    and raised: "apply_steps flt r (0, working c) = Inl e" by blast+
  from apply_steps_Inl [OF raised] have "flt \<noteq> CursorError" by auto
  moreover have "rollback c = c"
    using clean by (cases c) (simp add: rollback_def)
  ultimately show "insert_paper_data flt c r = Inr (c, False)"
    using raised by (simp add: insert_paper_data_def and_then_def)
next
  assume "try_paper raises parse papers_json i paper ident ttl st = Inl st'"
  then have "committed (db st') = committed (db st)" by (rule try_paper_Inl)
  then show "committed (rollback (db st')) = committed (db st)"
    and "working (rollback (db st')) = committed (db st)"
    by (simp_all add: rollback_def)
qed

theorem failed_apply_rolled_back_witness:
  "working (connect (record_applied sample_result empty_store)) =
     committed (connect (record_applied sample_result empty_store)) \<and>
   apply_steps (StatementError 3)
     (raw_record ''2401.00001'' ''A'' [''X'', ''Y''] [''cs.AI'', ''cs.LG''] sample_result)
     (0, working (connect (record_applied sample_result empty_store))) = Inl DatabaseError \<and>
   insert_paper_data (StatementError 3) (connect (record_applied sample_result empty_store))
     (raw_record ''2401.00001'' ''A'' [''X'', ''Y''] [''cs.AI'', ''cs.LG''] sample_result) =
     Inr (connect (record_applied sample_result empty_store), False) \<and>
   try_paper first_call_raises unparsed [without_title] 0 without_title ''2401.00007'' []
       (initial_state stored) =
     Inl ((initial_state stored)\<lparr>calls := 1\<rparr>) \<and>
   committed (rollback (db ((initial_state stored)\<lparr>calls := 1\<rparr>))) = stored \<and>
   working (rollback (db ((initial_state stored)\<lparr>calls := 1\<rparr>))) = stored"
proof -
  let ?c = "connect (record_applied sample_result empty_store)"
  let ?r = "raw_record ''2401.00001'' ''A'' [''X'', ''Y''] [''cs.AI'', ''cs.LG''] sample_result"
  have h1: "working ?c = committed ?c"
    by (simp add: connect_def)
  have h2: "apply_steps (StatementError 3) ?r (0, working ?c) = Inl DatabaseError"
    by (simp add: apply_steps_def and_then_def ensure_primary_category_def execute_def
        execute_returning_def raw_record_def sample_result_def split: option.split)
  have h3: "try_paper first_call_raises unparsed [without_title] 0 without_title
      ''2401.00007'' [] (initial_state stored) = Inl ((initial_state stored)\<lparr>calls := 1\<rparr>)"
    by (simp add: try_paper_def im_execute_def first_call_raises_def initial_state_def
        and_then_def)
  have s: "committed (db (initial_state stored)) = stored"
    by (simp add: initial_state_def connect_def)
  note t = failed_apply_rolled_back [where c = ?c and flt = "StatementError 3" and r = ?r
      and e = DatabaseError and raises = first_call_raises and parse = unparsed
      and papers_json = "[without_title]" and i = 0 and paper = without_title
      and ident = "''2401.00007''" and ttl = "[]" and st = "initial_state stored"
      and st' = "(initial_state stored)\<lparr>calls := 1\<rparr>"]
  from t h1 h2 have A: "insert_paper_data (StatementError 3) ?c ?r = Inr (?c, False)"
    by blast
  from t h3 have B: "committed (rollback (db ((initial_state stored)\<lparr>calls := 1\<rparr>))) =
      committed (db (initial_state stored)) \<and>
    working (rollback (db ((initial_state stored)\<lparr>calls := 1\<rparr>))) =
      committed (db (initial_state stored))"
    by blast
  from h1 h2 h3 A B show ?thesis
    unfolding s by blast
qed

section \<open>Author order on re-ingestion\<close>

text \<open>
  C4, as the code has it. In the per-record path, a successful apply of a record whose
  author names are pairwise different leaves, for the author at each 1-based position of
  the record, a paper_authors row of that paper and that author with that position, and
  no two rows for one (paper, author) pair: a row that was there is overwritten. In the
  batched import no two rows for one pair arise either, but a (paper, author) row that is
  in the store before the import is still the row of its pair afterwards, with the
  position it had: that path inserts with ON CONFLICT DO NOTHING.
\<close>

theorem reordered_authors_per_path:
  "(unique_keys (working c) \<and> distinct (r_authors r) \<and>
    insert_paper_data flt c r = Inr (c', True) \<longrightarrow>
      (\<forall>j < length (r_authors r).
         \<exists>aid. (aid, r_authors r ! j) \<in> set (authors (committed c')) \<and>
               (paper_id_of r, aid, j + 1) \<in> set (paper_authors (committed c'))) \<and>
      distinct (map pa_key (paper_authors (committed c')))) \<and>
   (unique_keys s \<longrightarrow>
      (\<forall>row \<in> set (paper_authors s).
         filter (\<lambda>x. pa_key x = pa_key row)
           (paper_authors (imported raises parse papers_json s)) = [row]) \<and>
      distinct (map pa_key (paper_authors (imported raises parse papers_json s))))"
proof (intro conjI impI allI ballI)
  assume h: "unique_keys (working c) \<and> distinct (r_authors r) \<and>
    insert_paper_data flt c r = Inr (c', True)"
  then have c': "committed c' = record_applied r (working c)"
    by (auto dest: insert_paper_data_True simp: connect_def)
  fix j
  assume "j < length (r_authors r)"
  with h show "\<exists>aid. (aid, r_authors r ! j) \<in> set (authors (committed c')) \<and>
               (paper_id_of r, aid, j + 1) \<in> set (paper_authors (committed c'))"
    unfolding c' by (intro applied_author_links) simp_all
next
  assume h: "unique_keys (working c) \<and> distinct (r_authors r) \<and>
    insert_paper_data flt c r = Inr (c', True)"
  then have c': "committed c' = record_applied r (working c)"
    by (auto dest: insert_paper_data_True simp: connect_def)
  from h have "unique_keys (record_applied r (working c))"
    by (simp add: unique_keys_record_applied)
  then show "distinct (map pa_key (paper_authors (committed c')))"
    by (simp add: c' unique_keys_def)
next
  assume u: "unique_keys s"
  from sound_main [OF u, of raises parse papers_json]
  have p: "prefix (paper_authors s) (paper_authors (imported raises parse papers_json s))"
    and d: "distinct (map pa_key (paper_authors (imported raises parse papers_json s)))"
    by (simp_all add: sound_def grows_def unique_keys_def imported_def)
  show "distinct (map pa_key (paper_authors (imported raises parse papers_json s)))"
    by (rule d)
  fix row
  assume "row \<in> set (paper_authors s)"
  with p have "row \<in> set (paper_authors (imported raises parse papers_json s))"
    by (auto simp: prefix_def)
  with d show "filter (\<lambda>x. pa_key x = pa_key row)
           (paper_authors (imported raises parse papers_json s)) = [row]"
    by (rule filter_key_member)
qed

theorem reordered_authors_per_path_witness:
  "unique_keys (working (connect stored)) \<and> distinct (r_authors revised_result) \<and>
   insert_paper_data NoFault (connect stored) revised_result =
     Inr (connect (record_applied revised_result stored), True) \<and>
   (\<exists>aid. (aid, ''Y'') \<in> set (authors (record_applied revised_result stored)) \<and>
          (''2401.00001'', aid, 1) \<in> set (paper_authors (record_applied revised_result stored))) \<and>
   (\<exists>aid. (aid, ''X'') \<in> set (authors (record_applied revised_result stored)) \<and>
          (''2401.00001'', aid, 2) \<in> set (paper_authors (record_applied revised_result stored))) \<and>
   paper_authors (record_applied revised_result stored) =
     [(''2401.00001'', 1, 2), (''2401.00001'', 2, 1)] \<and>
   unique_keys stored \<and>
   filter (\<lambda>x. pa_key x = (''2401.00001'', 2))
     (paper_authors (imported never unparsed [revised_json] stored)) = [(''2401.00001'', 2, 2)]"
proof -
  let ?c = "connect stored"
  let ?c' = "connect (record_applied revised_result stored)"
  have u: "unique_keys stored"
    by (simp add: unique_keys_def stored_def pa_key_def)
  have names: "r_authors revised_result = [''Y'', ''X'']"
    by (simp add: revised_result_def raw_record_def)
  have pid: "paper_id_of revised_result = ''2401.00001''"
    by (simp add: revised_result_def paper_id_of_def raw_record_def)
  have run: "insert_paper_data NoFault ?c revised_result = Inr (?c', True)"
    by (simp add: insert_paper_data_NoFault connect_def)
  have row: "(''2401.00001'', 2, 2) \<in> set (paper_authors stored)"
    by (simp add: stored_def)
  have key: "pa_key (''2401.00001'', 2, 2) = (''2401.00001'', 2)"
    by (simp add: pa_key_def)
  have eval: "paper_authors (record_applied revised_result stored) =
     [(''2401.00001'', 1, 2), (''2401.00001'', 2, 1)]"
    by code_simp
  note t = reordered_authors_per_path [where c = ?c and r = revised_result and flt = NoFault
      and c' = ?c' and s = stored and raises = never and parse = unparsed
      and papers_json = "[revised_json]"]
  from t u names run have
    links: "\<forall>j < length [''Y'', ''X''].
         \<exists>aid. (aid, [''Y'', ''X''] ! j) \<in> set (authors (committed ?c')) \<and>
               (''2401.00001'', aid, j + 1) \<in> set (paper_authors (committed ?c'))"
    by (simp add: connect_def pid)
  from links [rule_format, of 0] links [rule_format, of 1]
  have l0: "\<exists>aid. (aid, ''Y'') \<in> set (authors (record_applied revised_result stored)) \<and>
          (''2401.00001'', aid, 1) \<in> set (paper_authors (record_applied revised_result stored))"
    and l1: "\<exists>aid. (aid, ''X'') \<in> set (authors (record_applied revised_result stored)) \<and>
          (''2401.00001'', aid, 2) \<in> set (paper_authors (record_applied revised_result stored))"
    by (simp_all add: connect_def numeral_2_eq_2)
  from t u row have "filter (\<lambda>x. pa_key x = pa_key (''2401.00001'', 2, 2))
     (paper_authors (imported never unparsed [revised_json] stored)) = [(''2401.00001'', 2, 2)]"
    by blast
  with u names run l0 l1 eval show ?thesis
    by (simp add: connect_def key)
qed

text \<open>
  The batched import of the paper with its authors reordered to Y, X leaves X at position
  1 and Y at position 2.
\<close>

theorem batched_import_keeps_ordinals_counterexample:
  "authors stored = [(1, ''X''), (2, ''Y'')] \<and>
   paper_authors stored = [(''2401.00001'', 1, 1), (''2401.00001'', 2, 2)] \<and>
   j_id revised_json = Some ''2401.00001'' \<and> j_authors revised_json = [''Y'', ''X''] \<and>
   paper_authors (imported never unparsed [revised_json] stored) =
     [(''2401.00001'', 1, 1), (''2401.00001'', 2, 2)] \<and>
   (''2401.00001'', 2, 1) \<notin> set (paper_authors (imported never unparsed [revised_json] stored))"
  by code_simp

section \<open>Retries of one category fetch\<close>

text \<open>
  C5. One call of \<open>fetch_papers_by_category_to_db\<close> makes one, two or three attempts
  on the catalogue and sleeps 15 seconds between two attempts, never after the last.
  When three attempts in a row end in HTTPError it returns the count inserted so far
  (none) and leaves the connection as it was. When an attempt ends in any other
  exception it returns at once, with no further attempt and no sleep; if that exception
  is raised while the results are being inserted, the count returned is the number of
  records inserted before it. The call always returns a count, so a daily run goes on to
  every category in the declared order, whatever the catalogue and the store do.
\<close>

theorem bounded_retry_partial_count:
  fixes w :: env
  shows
  "(let q = query_of category date_str; cap = max_results max_total;
        out = fetch_papers_by_category_to_db w category date_str c batch_size max_total
    in
      snd (snd out) \<in>
        {[ApiCall q cap],
         [ApiCall q cap, Sleep 15, ApiCall q cap],
         [ApiCall q cap, Sleep 15, ApiCall q cap, Sleep 15, ApiCall q cap]} \<and>
      (api w q cap 0 = HTTPError \<and> api w q cap 1 = HTTPError \<and> api w q cap 2 = HTTPError \<longrightarrow>
         out = (0, c, [ApiCall q cap, Sleep 15, ApiCall q cap, Sleep 15, ApiCall q cap])) \<and>
      (api w q cap 0 = UnexpectedError \<longrightarrow> out = (0, c, [ApiCall q cap])) \<and>
      (api w q cap 0 = HTTPError \<and> api w q cap 1 = UnexpectedError \<longrightarrow>
         out = (0, c, [ApiCall q cap, Sleep 15, ApiCall q cap])) \<and>
      (api w q cap 0 = HTTPError \<and> api w q cap 1 = HTTPError \<and>
       api w q cap 2 = UnexpectedError \<longrightarrow>
         out = (0, c, [ApiCall q cap, Sleep 15, ApiCall q cap, Sleep 15, ApiCall q cap])) \<and>
      (\<forall>rs e c' n. api w q cap 0 = Results rs \<and> rs \<noteq> [] \<and>
         process_results (db_fault w q 0) 0 rs c 0 = (Some e, c', n) \<longrightarrow>
         out = (n, c', [ApiCall q cap]))) \<and>
   concat (map fetched_category (snd (snd (fetch_daily_papers_to_db w date_str s)))) =
     HIGH_VOLUME_CATEGORIES @ MEDIUM_VOLUME_CATEGORIES @ LOW_VOLUME_CATEGORIES"
proof -
  let ?q = "query_of category date_str"
  have 1: "snd (snd (fetch_loop w ?q max_total 0 0 c [])) \<in>
     {[ApiCall ?q (max_results max_total)],
      [ApiCall ?q (max_results max_total), Sleep 15, ApiCall ?q (max_results max_total)],
      [ApiCall ?q (max_results max_total), Sleep 15, ApiCall ?q (max_results max_total), Sleep 15,
       ApiCall ?q (max_results max_total)]}"
    by (rule fetch_trace_shapes)
  have 2: "api w ?q (max_results max_total) 0 = HTTPError \<Longrightarrow>
      api w ?q (max_results max_total) 1 = HTTPError \<Longrightarrow>
      api w ?q (max_results max_total) 2 = HTTPError \<Longrightarrow>
      fetch_loop w ?q max_total 0 0 c [] =
        (0, c, [ApiCall ?q (max_results max_total), Sleep 15, ApiCall ?q (max_results max_total),
                Sleep 15, ApiCall ?q (max_results max_total)])"
    by (simp add: fetch_loop_first fetch_loop_second fetch_loop_third)
  have 3: "api w ?q (max_results max_total) 0 = UnexpectedError \<Longrightarrow>
      fetch_loop w ?q max_total 0 0 c [] = (0, c, [ApiCall ?q (max_results max_total)])"
    by (simp add: fetch_loop_first)
  have 4: "api w ?q (max_results max_total) 0 = HTTPError \<Longrightarrow>
      api w ?q (max_results max_total) 1 = UnexpectedError \<Longrightarrow>
      fetch_loop w ?q max_total 0 0 c [] =
        (0, c, [ApiCall ?q (max_results max_total), Sleep 15, ApiCall ?q (max_results max_total)])"
    by (simp add: fetch_loop_first fetch_loop_second)
  have 5: "api w ?q (max_results max_total) 0 = HTTPError \<Longrightarrow>
      api w ?q (max_results max_total) 1 = HTTPError \<Longrightarrow>
      api w ?q (max_results max_total) 2 = UnexpectedError \<Longrightarrow>
      fetch_loop w ?q max_total 0 0 c [] =
        (0, c, [ApiCall ?q (max_results max_total), Sleep 15, ApiCall ?q (max_results max_total),
                Sleep 15, ApiCall ?q (max_results max_total)])"
    by (simp add: fetch_loop_first fetch_loop_second fetch_loop_third)
  have 6: "api w ?q (max_results max_total) 0 = Results rs \<Longrightarrow> rs \<noteq> [] \<Longrightarrow>
      process_results (db_fault w ?q 0) 0 rs c 0 = (Some e, c', n) \<Longrightarrow>
      fetch_loop w ?q max_total 0 0 c [] = (n, c', [ApiCall ?q (max_results max_total)])"
    for rs e c' n
    by (simp add: fetch_loop_first)
  show ?thesis
    unfolding Let_def fetch_papers_by_category_to_db_def
    using 1 2 3 4 5 6 daily_fetched_categories [of w date_str s] by blast
qed

theorem bounded_retry_partial_count_witness:
  "api catalogue_down (query_of ''cs.AI'' ''20240115'') (max_results (Some 500)) 0 = HTTPError \<and>
   api catalogue_down (query_of ''cs.AI'' ''20240115'') (max_results (Some 500)) 1 = HTTPError \<and>
   api catalogue_down (query_of ''cs.AI'' ''20240115'') (max_results (Some 500)) 2 = HTTPError \<and>
   fetch_papers_by_category_to_db catalogue_down ''cs.AI'' ''20240115'' (connect empty_store)
       50 (Some 500) =
     (0, connect empty_store,
      [ApiCall (query_of ''cs.AI'' ''20240115'') (Some 500), Sleep 15,
       ApiCall (query_of ''cs.AI'' ''20240115'') (Some 500), Sleep 15,
       ApiCall (query_of ''cs.AI'' ''20240115'') (Some 500)]) \<and>
   api catalogue_broken (query_of ''cs.AI'' ''20240115'') (max_results (Some 500)) 1 =
     UnexpectedError \<and>
   fetch_papers_by_category_to_db catalogue_broken ''cs.AI'' ''20240115'' (connect empty_store)
       50 (Some 500) =
     (0, connect empty_store,
      [ApiCall (query_of ''cs.AI'' ''20240115'') (Some 500), Sleep 15,
       ApiCall (query_of ''cs.AI'' ''20240115'') (Some 500)]) \<and>
   process_results (db_fault connection_lost (query_of ''cs.AI'' ''20240115'') 0) 0
       [sample_result, raw_record ''2401.00001'' ''A'' [''X'', ''Y''] [''cs.AI''] sample_result]
       (connect empty_store) 0 =
     (Some DatabaseError, connect (record_applied sample_result empty_store), 1) \<and>
   fetch_papers_by_category_to_db connection_lost ''cs.AI'' ''20240115'' (connect empty_store)
       50 (Some 500) =
     (1, connect (record_applied sample_result empty_store),
      [ApiCall (query_of ''cs.AI'' ''20240115'') (Some 500)])"
proof -
  let ?q = "query_of ''cs.AI'' ''20240115''"
  let ?c = "connect empty_store"
  have cap: "max_results (Some 500) = Some 500"
    by (simp add: max_results_def)
  have down: "api catalogue_down ?q (Some 500) k = HTTPError" for k
    by (simp add: catalogue_down_def)
  have broken: "api catalogue_broken ?q (Some 500) 0 = HTTPError"
    "api catalogue_broken ?q (Some 500) 1 = UnexpectedError"
    by (simp_all add: catalogue_broken_def)
  have lost: "api connection_lost ?q (Some 500) 0 =
      Results [sample_result, raw_record ''2401.00001'' ''A'' [''X'', ''Y''] [''cs.AI''] sample_result]"
    by (simp add: connection_lost_def)
  have run: "process_results (db_fault connection_lost ?q 0) 0
       [sample_result, raw_record ''2401.00001'' ''A'' [''X'', ''Y''] [''cs.AI''] sample_result]
       ?c 0 = (Some DatabaseError, connect (record_applied sample_result empty_store), 1)"
    by (simp add: connection_lost_def insert_paper_data_NoFault)
      (simp add: insert_paper_data_def connect_def)
  note a = bounded_retry_partial_count [where w = catalogue_down and category = "''cs.AI''"
      and date_str = "''20240115''" and c = ?c and batch_size = 50 and max_total = "Some 500",
      unfolded Let_def cap]
  note b = bounded_retry_partial_count [where w = catalogue_broken and category = "''cs.AI''"
      and date_str = "''20240115''" and c = ?c and batch_size = 50 and max_total = "Some 500",
      unfolded Let_def cap]
  note d = bounded_retry_partial_count [where w = connection_lost and category = "''cs.AI''"
      and date_str = "''20240115''" and c = ?c and batch_size = 50 and max_total = "Some 500",
      unfolded Let_def cap]
  have A: "fetch_papers_by_category_to_db catalogue_down ''cs.AI'' ''20240115'' ?c 50 (Some 500) =
     (0, ?c, [ApiCall ?q (Some 500), Sleep 15, ApiCall ?q (Some 500), Sleep 15,
              ApiCall ?q (Some 500)])"
    using a down by blast
  have B: "fetch_papers_by_category_to_db catalogue_broken ''cs.AI'' ''20240115'' ?c 50 (Some 500) =
     (0, ?c, [ApiCall ?q (Some 500), Sleep 15, ApiCall ?q (Some 500)])"
    using b broken by blast
  have D: "fetch_papers_by_category_to_db connection_lost ''cs.AI'' ''20240115'' ?c 50 (Some 500) =
     (1, connect (record_applied sample_result empty_store), [ApiCall ?q (Some 500)])"
    using d lost run by blast
  show ?thesis
    unfolding cap using down broken run A B D by simp
qed

section \<open>The schedule of a daily run\<close>

text \<open>
  C7. Whatever the catalogue and the store answer, a daily run calls the fetch and pauses
  in this order: the four HIGH categories one at a time under cap 500, a pause of 5
  seconds after each; the eight MEDIUM categories in declared order under cap 300, a
  pause of 3 seconds after each pair; the twenty-eight LOW categories in declared order
  under cap 150, a pause of 2 seconds after each group of five (the last group has the
  three categories that remain).
\<close>

theorem daily_schedule:
  "map outline (snd (snd (fetch_daily_papers_to_db w date_str s))) =
     [Fetch ''cs.AI'' 500, Wait 5, Fetch ''cs.CV'' 500, Wait 5,
      Fetch ''cs.LG'' 500, Wait 5, Fetch ''cs.CL'' 500, Wait 5,
      Fetch ''cs.CR'' 300, Fetch ''cs.NE'' 300, Wait 3,
      Fetch ''cs.RO'' 300, Fetch ''cs.IR'' 300, Wait 3,
      Fetch ''cs.SE'' 300, Fetch ''cs.SI'' 300, Wait 3,
      Fetch ''cs.HC'' 300, Fetch ''cs.DB'' 300, Wait 3,
      Fetch ''cs.AR'' 150, Fetch ''cs.CC'' 150, Fetch ''cs.CE'' 150, Fetch ''cs.CG'' 150,
      Fetch ''cs.CY'' 150, Wait 2,
      Fetch ''cs.DC'' 150, Fetch ''cs.DL'' 150, Fetch ''cs.DM'' 150, Fetch ''cs.DS'' 150,
      Fetch ''cs.ET'' 150, Wait 2,
      Fetch ''cs.FL'' 150, Fetch ''cs.GL'' 150, Fetch ''cs.GR'' 150, Fetch ''cs.GT'' 150,
      Fetch ''cs.IT'' 150, Wait 2,
      Fetch ''cs.LO'' 150, Fetch ''cs.MA'' 150, Fetch ''cs.MM'' 150, Fetch ''cs.MS'' 150,
      Fetch ''cs.NA'' 150, Wait 2,
      Fetch ''cs.NI'' 150, Fetch ''cs.OH'' 150, Fetch ''cs.OS'' 150, Fetch ''cs.PF'' 150,
      Fetch ''cs.PL'' 150, Wait 2,
      Fetch ''cs.SC'' 150, Fetch ''cs.SD'' 150, Fetch ''cs.SY'' 150, Wait 2]"
  by (simp add: daily_outline category_processing_order_def high_schedule medium_schedule
      low_schedule)

section \<open>Missing identifier, missing title\<close>

text \<open>
  C8. In the loop of the batched import, a paper whose id is absent or empty is skipped:
  the pass prints the warning and changes nothing else, neither the store nor the caches
  nor the queues, and the loop goes on with the next paper. A paper that has an id but
  whose title is absent or empty is not skipped: when no call raises and the id is not in
  the papers table yet, the pass adds exactly one row to the table, with that id and the
  empty string as title.
\<close>

theorem missing_identifier_and_title:
  "(missing (j_id paper) \<longrightarrow>
      import_paper raises parse papers_json i paper st =
        st\<lparr>printed := printed st @ [SkippingMissingId i]\<rparr> \<and>
      import_loop raises parse papers_json i (paper # rest) st =
        import_loop raises parse papers_json (Suc i) rest
          (st\<lparr>printed := printed st @ [SkippingMissingId i]\<rparr>)) \<and>
   (\<not> missing (j_id paper) \<and> missing (j_title paper) \<and> (\<forall>k. \<not> raises k) \<and>
    text_of (j_id paper) \<notin> set (map paper_id (papers (working (db st)))) \<longrightarrow>
      (\<exists>row. papers (working (db (import_paper raises parse papers_json i paper st))) =
               papers (working (db st)) @ [row] \<and>
             paper_id row = text_of (j_id paper) \<and> title row = [])) \<and>
   missing None \<and> missing (Some [])"
proof (intro conjI impI)
  assume "missing (j_id paper)"
  then show "import_paper raises parse papers_json i paper st =
        st\<lparr>printed := printed st @ [SkippingMissingId i]\<rparr>"
    by (simp add: import_paper_def)
  then show "import_loop raises parse papers_json i (paper # rest) st =
        import_loop raises parse papers_json (Suc i) rest
          (st\<lparr>printed := printed st @ [SkippingMissingId i]\<rparr>)"
    by simp
next
  assume h: "\<not> missing (j_id paper) \<and> missing (j_title paper) \<and> (\<forall>k. \<not> raises k) \<and>
    text_of (j_id paper) \<notin> set (map paper_id (papers (working (db st))))"
  then have "papers (working (db (import_paper raises parse papers_json i paper st))) =
     papers (working (db st)) @ [json_values parse (text_of (j_id paper)) [] paper]"
    using import_paper_inserts [of raises paper st parse papers_json i] by simp
  then show "\<exists>row. papers (working (db (import_paper raises parse papers_json i paper st))) =
               papers (working (db st)) @ [row] \<and>
             paper_id row = text_of (j_id paper) \<and> title row = []"
    by (simp add: json_values_def)
next
  show "missing None" by (simp add: missing_def)
  show "missing (Some [])" by (simp add: missing_def)
qed

theorem missing_identifier_and_title_witness:
  "missing (j_id without_id) \<and>
   import_paper never unparsed [without_id, without_title] 0 without_id (initial_state stored) =
     (initial_state stored)\<lparr>printed := [SkippingMissingId 0]\<rparr> \<and>
   \<not> missing (j_id without_title) \<and> missing (j_title without_title) \<and>
   ''2401.00007'' \<notin> set (map paper_id (papers (working (db (initial_state stored))))) \<and>
   (\<exists>row. papers (working (db (import_paper never unparsed [without_id, without_title] 1
                                  without_title (initial_state stored)))) =
            papers (working (db (initial_state stored))) @ [row] \<and>
          paper_id row = ''2401.00007'' \<and> title row = []) \<and>
   map (\<lambda>p. (paper_id p, title p))
     (papers (imported never unparsed [without_id, without_title] stored)) =
     [(''2401.00001'', ''A''), (''2401.00007'', [])] \<and>
   printed (main never unparsed [without_id, without_title] stored) =
     [SkippingMissingId 0, NoTitle ''2401.00007'']"
proof -
  have h1: "missing (j_id without_id)"
    by (simp add: without_id_def missing_def)
  have h2: "\<not> missing (j_id without_title)" "missing (j_title without_title)"
    by (simp_all add: without_title_def missing_def)
  have h3: "\<forall>k. \<not> never k"
    by (simp add: never_def)
  have id: "text_of (j_id without_title) = ''2401.00007''"
    by (simp add: without_title_def text_of_def)
  have h4: "''2401.00007'' \<notin> set (map paper_id (papers (working (db (initial_state stored)))))"
    by (simp add: initial_state_def connect_def stored_def stored_row_def)
  have e1: "map (\<lambda>p. (paper_id p, title p))
     (papers (imported never unparsed [without_id, without_title] stored)) =
     [(''2401.00001'', ''A''), (''2401.00007'', [])]"
    by code_simp
  have e2: "printed (main never unparsed [without_id, without_title] stored) =
     [SkippingMissingId 0, NoTitle ''2401.00007'']"
    by code_simp
  note a = missing_identifier_and_title [where paper = without_id and raises = never
      and parse = unparsed and papers_json = "[without_id, without_title]" and i = 0
      and st = "initial_state stored" and rest = "[]"]
  note b = missing_identifier_and_title [where paper = without_title and raises = never
      and parse = unparsed and papers_json = "[without_id, without_title]" and i = 1
      and st = "initial_state stored" and rest = "[]"]
  have A: "import_paper never unparsed [without_id, without_title] 0 without_id
      (initial_state stored) = (initial_state stored)\<lparr>printed := [SkippingMissingId 0]\<rparr>"
    using a h1 by (simp add: initial_state_def)
  have B: "\<exists>row. papers (working (db (import_paper never unparsed [without_id, without_title] 1
                                  without_title (initial_state stored)))) =
            papers (working (db (initial_state stored))) @ [row] \<and>
          paper_id row = ''2401.00007'' \<and> title row = []"
    using b h2 h3 h4 unfolding id by blast
  from h1 h2 h4 A B e1 e2 show ?thesis by blast
qed

section \<open>The batched import never overwrites a paper\<close>

text \<open>
  C9. Let the store satisfy its unique constraints. Whatever the JSON file holds, however
  the timestamps parse and whichever calls raise, a row that is in the papers table
  before the batched import is in it afterwards with every field as it was, and it is the
  only row with its id.
\<close>

theorem import_keeps_existing_papers:
  assumes "unique_keys s" and "row \<in> set (papers s)"
  shows "filter (\<lambda>p. paper_id p = paper_id row) (papers (imported raises parse papers_json s)) =
           [row]"
proof -
  from sound_main [OF assms(1), of raises parse papers_json]
  have "prefix (papers s) (papers (imported raises parse papers_json s))"
    and d: "distinct (map paper_id (papers (imported raises parse papers_json s)))"
    by (simp_all add: sound_def grows_def unique_keys_def imported_def)
  with assms(2) have "row \<in> set (papers (imported raises parse papers_json s))"
    by (auto simp: prefix_def)
  with d show ?thesis by (rule filter_key_member)
qed

theorem import_keeps_existing_papers_witness:
  "unique_keys stored \<and> stored_row \<in> set (papers stored) \<and>
   filter (\<lambda>p. paper_id p = ''2401.00001'')
     (papers (imported never unparsed [revised_json] stored)) = [stored_row]"
proof -
  have h1: "unique_keys stored"
    by (simp add: unique_keys_def stored_def pa_key_def)
  have h2: "stored_row \<in> set (papers stored)" by (simp add: stored_def)
  have "paper_id stored_row = ''2401.00001''" by (simp add: stored_row_def)
  with import_keeps_existing_papers [OF h1 h2, of never unparsed "[revised_json]"] h1 h2
  show ?thesis by simp
qed

section \<open>The retry recursion of the JSON fetch variant\<close>

text \<open>
  C10. With a client whose every call raises, \<open>fetch_papers_by_category\<close> of the JSON
  fetch variant does not return, however many nested calls it is allowed: each call
  starts with \<open>failures = 0\<close>, so the test \<open>failures < max_failures\<close> in the handler is
  always \<open>1 < 3\<close> and the handler always calls the function again. The shrinking
  result cap does not end it either; it stays at 50.
\<close>

theorem retry_without_bound:
  "fetch_papers_by_category depth strftime always_raising category date_str call batch_size
     max_total = None"
proof (induction depth arbitrary: call max_total)
  case 0
  show ?case by simp
next
  case (Suc depth)
  show ?case
    by (simp add: always_raising_def max_failures_def Suc.IH [unfolded always_raising_def])
qed

end
